theory Spec2Isabelle
  imports Complex_Main
begin

section \<open>Data model of the QuickNavPlugin\<close>

text \<open>
  JavaScript numbers are modelled as reals: NaN and the infinities are not represented.
  A value that may be \<open>undefined\<close> or \<open>null\<close> is an \<open>option\<close>, with \<open>None\<close> standing for both.
\<close>

text \<open>An axis-aligned box is the six-element array \<open>[xmin, ymin, zmin, xmax, ymax, zmax]\<close>.\<close>

record aabb3 =
  a0 :: real
  a1 :: real
  a2 :: real
  a3 :: real
  a4 :: real
  a5 :: real

text \<open>Array access \<open>aabb[i]\<close> and array store \<open>aabb[i] = v\<close> for the indices 0 to 5.\<close>

definition aabb_at :: "aabb3 \<Rightarrow> nat \<Rightarrow> real" where
  "aabb_at b i =
     (if i = 0 then a0 b else if i = 1 then a1 b else if i = 2 then a2 b
      else if i = 3 then a3 b else if i = 4 then a4 b else a5 b)"

definition aabb_put :: "aabb3 \<Rightarrow> nat \<Rightarrow> real \<Rightarrow> aabb3" where
  "aabb_put b i v =
     (if i = 0 then b\<lparr>a0 := v\<rparr> else if i = 1 then b\<lparr>a1 := v\<rparr> else if i = 2 then b\<lparr>a2 := v\<rparr>
      else if i = 3 then b\<lparr>a3 := v\<rparr> else if i = 4 then b\<lparr>a4 := v\<rparr> else b\<lparr>a5 := v\<rparr>)"

text \<open>
  The entities held by the cull-state store, and the metadata looked up by entity id. Entity
  ids are taken not to be names of properties that the metadata table itself inherits.
\<close>

record entity =
  entity_id :: string
  numTriangles :: nat
  entity_aabb :: aabb3

record metaObject =
  metaType :: string

text \<open>The tri-state frustum classification \<open>Frustum.INSIDE / INTERSECT / OUTSIDE\<close>.\<close>

datatype intersection = INSIDE | INTERSECT | OUTSIDE

text \<open>
  A node of the KD-tree is the object literal \<open>{aabb, intersection, left, right, objects}\<close>;
  \<open>left\<close>, \<open>right\<close> and \<open>objects\<close> are absent until they are first assigned.
\<close>

datatype kdNode =
  KDNode (node_aabb: aabb3) (node_intersection: intersection)
         (left: "kdNode option") (right: "kdNode option") (node_objects: "nat list option")

text \<open>The overlay image used by the crossfade; only the fields the fade logic drives are kept.\<close>

record img =
  img_src :: string
  img_visible :: bool
  img_opacity :: real

text \<open>
  The two callbacks the plugin hands to the browser's timers: the delayed recovery closure
  given to \<open>setTimeout\<close>, and the fade step given to \<open>setInterval\<close>, whose closure holds the
  local variable \<open>opacity\<close> and the constant \<open>inc\<close>.
\<close>

datatype callback = Recovery | FadeStep real real

datatype error = SnapshotError | TypeError

text \<open>
  One record holds the plugin instance (\<open>this._x\<close> is the field \<open>x\<close>), the variables captured by
  the constructor's closures (\<open>timer\<close>, \<open>fastMode\<close>, \<open>down\<close>), and the collaborators the plugin
  reads and writes: the scene's effect switches, the metadata, the cull-state store and the
  browser's timer table.
\<close>

record state =
  hidePBR :: "bool option"
  hideSAO :: "bool option"
  hideEdges :: "bool option"
  maxTreeDepth :: nat
  modelInfos :: "string list"
  kdRoot :: "kdNode option"
  hideSmallerThan :: real
  hideMoreTrianglesThan :: real
  hideTypes :: "string list"
  dontHideTypes :: "string list"
  hideTypesMap :: "string \<rightharpoonup> bool"
  dontHideTypesMap :: "string \<rightharpoonup> bool"
  cullSet :: "nat list"
  cullSetLen :: nat
  cullSetDirty :: bool
  frustumDirty :: bool
  kdTreeDirty :: bool
  culling :: "bool option"
  pInterval :: "nat option"
  pInterval2 :: "nat option"
  fadeMillisecs :: real
  img :: "img option"
  timer :: real
  fastMode :: bool
  down :: bool
  scene_pbr :: bool
  scene_sao_enabled :: bool
  scene_edges :: bool
  scene_aabb :: aabb3
  metaObjects :: "string \<rightharpoonup> metaObject"
  objects :: "entity list"
  objectsViewCulled :: "nat \<Rightarrow> bool"
  objectsDetailCulled :: "nat \<Rightarrow> bool"
  timers :: "nat \<rightharpoonup> callback"
  nextTimer :: nat

definition MAX_KD_TREE_DEPTH :: nat where
  "MAX_KD_TREE_DEPTH = 8"

definition timeoutDuration :: real where
  "timeoutDuration = 600"

text \<open>Truthiness of the values the plugin tests with \<open>if (x)\<close>.\<close>

definition truthy :: "bool option \<Rightarrow> bool" where
  "truthy v = (case v of Some b \<Rightarrow> b | None \<Rightarrow> False)"

definition handle_truthy :: "nat option \<Rightarrow> bool" where
  "handle_truthy v = (case v of Some h \<Rightarrow> h \<noteq> 0 | None \<Rightarrow> False)"

section \<open>Collaborators that are not part of the plugin's file\<close>

text \<open>
  Modelled from the spec: \<open>ObjectCullStates.numObjects\<close> (\<open>../lib/culling/ObjectCullStates\<close> is
  not among the sources). The spec gives the store read access to the total object count and
  to the per-index object data; the count is the number of objects held.
\<close>

definition numObjects :: "state \<Rightarrow> nat" where
  "numObjects s = length (objects s)"

text \<open>
  Modelled from the spec: \<open>ObjectCullStates.setObjectViewCulled\<close> (not among the sources). The
  spec gives the store two independent booleans per object index, \<open>viewCulled\<close> and
  \<open>detailCulled\<close>, with write access to each; this writes the first.
\<close>

definition setObjectViewCulled :: "nat \<Rightarrow> bool \<Rightarrow> state \<Rightarrow> state" where
  "setObjectViewCulled objectIdx culled s =
     s\<lparr>objectsViewCulled := (objectsViewCulled s)(objectIdx := culled)\<rparr>"

text \<open>
  Modelled from the spec: \<open>ObjectCullStates.setObjectDetailCulled\<close> (not among the sources),
  the write access to the per-object \<open>detailCulled\<close> boolean.
\<close>

definition setObjectDetailCulled :: "nat \<Rightarrow> bool \<Rightarrow> state \<Rightarrow> state" where
  "setObjectDetailCulled objectIdx culled s =
     s\<lparr>objectsDetailCulled := (objectsDetailCulled s)(objectIdx := culled)\<rparr>"

text \<open>
  Modelled from the spec: \<open>math.getAABB3Diag\<close> (the vector math is not among the sources). The
  spec measures the size of an object as the length of the diagonal of its box.
\<close>

definition getAABB3Diag :: "aabb3 \<Rightarrow> real" where
  "getAABB3Diag b = sqrt ((a3 b - a0 b)\<^sup>2 + (a4 b - a1 b)\<^sup>2 + (a5 b - a2 b)\<^sup>2)"

text \<open>
  Modelled from the spec: \<open>math.containsAABB3\<close> (not among the sources). The spec descends
  into a child whose bound "fully contains the object's box": on every axis the first box
  reaches at least as far as the second in both directions.
\<close>

definition containsAABB3 :: "aabb3 \<Rightarrow> aabb3 \<Rightarrow> bool" where
  "containsAABB3 aabb1 aabb2 \<longleftrightarrow>
     a0 aabb1 \<le> a0 aabb2 \<and> a3 aabb2 \<le> a3 aabb1 \<and>
     a1 aabb1 \<le> a1 aabb2 \<and> a4 aabb2 \<le> a4 aabb1 \<and>
     a2 aabb1 \<le> a2 aabb2 \<and> a5 aabb2 \<le> a5 aabb1"

text \<open>
  Modelled from the spec: \<open>math.expandAABB3\<close> (not among the sources). The spec expands a
  node's bound "to the union with the object's box": the smallest box covering both.
\<close>

definition expandAABB3 :: "aabb3 \<Rightarrow> aabb3 \<Rightarrow> aabb3" where
  "expandAABB3 aabb1 aabb2 =
     \<lparr>a0 = min (a0 aabb1) (a0 aabb2), a1 = min (a1 aabb1) (a1 aabb2), a2 = min (a2 aabb1) (a2 aabb2),
      a3 = max (a3 aabb1) (a3 aabb2), a4 = max (a4 aabb1) (a4 aabb2), a5 = max (a5 aabb1) (a5 aabb2)\<rparr>"

text \<open>
  The browser's timers. \<open>setTimeout\<close> and \<open>setInterval\<close> hand out fresh handles from one
  counter and register the callback; \<open>clearInterval\<close> and \<open>clearTimeout\<close> share the table,
  so either removes a handle of either kind.
\<close>

definition setTimer :: "callback \<Rightarrow> state \<Rightarrow> nat \<times> state" where
  "setTimer cb s = (nextTimer s, s\<lparr>timers := (timers s)(nextTimer s \<mapsto> cb), nextTimer := nextTimer s + 1\<rparr>)"

definition clearInterval :: "nat \<Rightarrow> state \<Rightarrow> state" where
  "clearInterval h s = s\<lparr>timers := (timers s)(h := None)\<rparr>"

section \<open>Configuration setters\<close>

definition set_hidePBR :: "bool option \<Rightarrow> state \<Rightarrow> state" where
  "set_hidePBR v s = s\<lparr>hidePBR := v\<rparr>"

definition set_hideSAO :: "bool option \<Rightarrow> state \<Rightarrow> state" where
  "set_hideSAO v s = s\<lparr>hideSAO := v\<rparr>"

definition set_hideEdges :: "bool option \<Rightarrow> state \<Rightarrow> state" where
  "set_hideEdges v s = s\<lparr>hideEdges := v\<rparr>"

definition set_hideSmallerThan :: "real option \<Rightarrow> state \<Rightarrow> state" where
  "set_hideSmallerThan v s =
     s\<lparr>hideSmallerThan := (case v of Some x \<Rightarrow> x | None \<Rightarrow> 0), cullSetDirty := True\<rparr>"

definition set_hideMoreTrianglesThan :: "real option \<Rightarrow> state \<Rightarrow> state" where
  "set_hideMoreTrianglesThan v s =
     s\<lparr>hideMoreTrianglesThan := (case v of Some x \<Rightarrow> x | None \<Rightarrow> 0), cullSetDirty := True\<rparr>"

text \<open>
  \<open>types.map(type => { m[type] = true })\<close> over a fresh object \<open>{}\<close>: the properties the
  setter stores in the type map.
\<close>

definition typesMap :: "string list \<Rightarrow> (string \<rightharpoonup> bool)" where
  "typesMap types = fold (\<lambda>t m. m(t \<mapsto> True)) types Map.empty"

text \<open>
  The type maps are plain objects, so the test \<open>if (map[key])\<close> finds the value stored under
  the key and, where nothing is stored, the property of that name which every plain object
  inherits from \<open>Object.prototype\<close>. The inherited properties are functions, and \<open>__proto__\<close>
  is the prototype object: all of them count as true. (Storing under \<open>__proto__\<close> creates no
  property of the map; the lookup then gives the prototype object, true as well.)
\<close>

definition ObjectPrototype_keys :: "string list" where
  "ObjectPrototype_keys =
     [''constructor'', ''hasOwnProperty'', ''isPrototypeOf'', ''propertyIsEnumerable'',
      ''toLocaleString'', ''toString'', ''valueOf'', ''__proto__'',
      ''__defineGetter__'', ''__defineSetter__'', ''__lookupGetter__'', ''__lookupSetter__'']"

definition lookup_truthy :: "(string \<rightharpoonup> bool) \<Rightarrow> string \<Rightarrow> bool" where
  "lookup_truthy m key = (case m key of Some b \<Rightarrow> b | None \<Rightarrow> key \<in> set ObjectPrototype_keys)"

definition set_hideTypes :: "string list option \<Rightarrow> state \<Rightarrow> state" where
  "set_hideTypes v s =
     (let types = (case v of Some ts \<Rightarrow> ts | None \<Rightarrow> [])
      in s\<lparr>hideTypes := types, hideTypesMap := typesMap types, cullSetDirty := True\<rparr>)"

definition set_dontHideTypes :: "string list option \<Rightarrow> state \<Rightarrow> state" where
  "set_dontHideTypes v s =
     (let types = (case v of Some ts \<Rightarrow> ts | None \<Rightarrow> [])
      in s\<lparr>dontHideTypes := types, dontHideTypesMap := typesMap types, cullSetDirty := True\<rparr>)"

definition addModel :: "string \<Rightarrow> state \<Rightarrow> state" where
  "addModel modelId s =
     s\<lparr>modelInfos := modelId # removeAll modelId (modelInfos s), cullSetDirty := True, kdTreeDirty := True\<rparr>"

definition removeModel :: "string \<Rightarrow> state \<Rightarrow> state" where
  "removeModel modelId s =
     (if modelId \<in> set (modelInfos s)
      then s\<lparr>modelInfos := removeAll modelId (modelInfos s), cullSetDirty := True, kdTreeDirty := True\<rparr>
      else s)"

section \<open>The detail-cull set\<close>

text \<open>
  \<open>this._cullSet[this._cullSetLen++] = objectIdx\<close>: a store at an index below the array's
  length overwrites, a store at the length appends. The counter restarts at 0 in
  \<open>_buildCullObjects\<close> and grows by one per store, so it never passes the length there.
\<close>

definition array_put :: "nat list \<Rightarrow> nat \<Rightarrow> nat \<Rightarrow> nat list" where
  "array_put xs i v = (if i < length xs then xs[i := v] else xs @ [v])"

definition cullSet_push :: "nat \<Rightarrow> state \<Rightarrow> state" where
  "cullSet_push objectIdx s =
     s\<lparr>cullSet := array_put (cullSet s) (cullSetLen s) objectIdx, cullSetLen := cullSetLen s + 1\<rparr>"

text \<open>The body of the loop over \<open>objectIdx\<close> in \<open>_buildCullObjects\<close>; \<open>continue\<close> ends the body.\<close>

definition buildCullObjects_body :: "nat \<Rightarrow> state \<Rightarrow> state" where
  "buildCullObjects_body objectIdx s =
     (let hideMoreTrianglesThanEnabled = (hideMoreTrianglesThan s \<noteq> 0);
          hideSmallerThanEnabled = (hideSmallerThan s \<noteq> 0);
          entity = objects s ! objectIdx;
          metaObject = metaObjects s (entity_id entity)
      in if (case metaObject of Some m \<Rightarrow> lookup_truthy (dontHideTypesMap s) (metaType m) | None \<Rightarrow> False)
         then s
         else if (case metaObject of Some m \<Rightarrow> lookup_truthy (hideTypesMap s) (metaType m) | None \<Rightarrow> False)
         then cullSet_push objectIdx s
         else if hideMoreTrianglesThanEnabled then
           (let entityNumTriangles = real (numTriangles entity)
            in if hideSmallerThanEnabled then
                 (let entitySize = getAABB3Diag (entity_aabb entity);
                      needCull = (hideMoreTrianglesThan s \<le> entityNumTriangles \<and> entitySize \<le> hideSmallerThan s)
                  in if needCull then cullSet_push objectIdx s else s)
               else
                 (let needCull = (hideMoreTrianglesThan s \<le> entityNumTriangles)
                  in if needCull then cullSet_push objectIdx s else s))
         else if hideSmallerThanEnabled then
           (let entitySize = getAABB3Diag (entity_aabb entity);
                needCull = (entitySize \<le> hideSmallerThan s)
            in if needCull then cullSet_push objectIdx s else s)
         else s)"

text \<open>
  \<open>_buildCullObjects\<close>: the first loop walks the first \<open>_cullSetLen\<close> entries of the old set
  and calls \<open>setObjectViewCulled(objectIdx, false)\<close> on each; then the set is refilled from
  index 0 by the loop over all object indices. The array is not truncated: entries beyond the
  new \<open>_cullSetLen\<close> stay in it. (\<open>_cullSetLen\<close> starts at 0 with an empty array and is only
  ever set by this function and by \<open>destroy\<close>, so it never passes the array's length.)
\<close>

definition buildCullObjects :: "state \<Rightarrow> state" where
  "buildCullObjects s =
     (let s1 = fold (\<lambda>objectIdx. setObjectViewCulled objectIdx False) (take (cullSetLen s) (cullSet s)) s;
          s2 = s1\<lparr>cullSetLen := 0\<rparr>;
          s3 = fold buildCullObjects_body [0 ..< numObjects s2] s2
      in s3\<lparr>cullSetDirty := False\<rparr>)"

text \<open>\<open>_setObjectsCulled\<close>: the loop runs over \<open>this._cullSet.length\<close>, the whole array.\<close>

definition setObjectsCulled :: "bool \<Rightarrow> state \<Rightarrow> state" where
  "setObjectsCulled culled s =
     (let s1 = (if cullSetDirty s then buildCullObjects s else s);
          s2 = fold (\<lambda>objectIdx. setObjectDetailCulled objectIdx culled) (cullSet s1) s1
      in s2\<lparr>culling := Some culled\<rparr>)"

text \<open>The cull set the rebuild produced: the first \<open>_cullSetLen\<close> entries of \<open>_cullSet\<close>.\<close>

definition builtCullSet :: "state \<Rightarrow> nat list" where
  "builtCullSet s = take (cullSetLen s) (cullSet s)"

section \<open>Construction\<close>

text \<open>The configuration object handed to the constructor; an omitted property is \<open>None\<close>.\<close>

record cfg =
  cfg_hidePBR :: "bool option"
  cfg_hideSAO :: "bool option"
  cfg_hideEdges :: "bool option"
  cfg_hideSmallerThan :: "real option"
  cfg_hideMoreTrianglesThan :: "real option"
  cfg_hideTypes :: "string list option"
  cfg_dontHideTypes :: "string list option"

text \<open>What the constructor finds in the viewer it is attached to.\<close>

record viewer =
  v_scene_hidePBR :: "bool option"
  v_scene_pbr :: bool
  v_scene_sao_enabled :: bool
  v_scene_edges :: bool
  v_scene_aabb :: aabb3
  v_metaObjects :: "string \<rightharpoonup> metaObject"
  v_objects :: "entity list"
  v_objectsViewCulled :: "nat \<Rightarrow> bool"
  v_objectsDetailCulled :: "nat \<Rightarrow> bool"
  v_timers :: "nat \<rightharpoonup> callback"
  v_nextTimer :: nat

text \<open>
  The field initialisers of the constructor, in its order. \<open>_hideTypes\<close> and \<open>_dontHideTypes\<close>
  start as \<open>{}\<close> and the two type maps are unset until the setters at the end of the
  constructor assign them.
\<close>

definition init_fields :: "viewer \<Rightarrow> cfg \<Rightarrow> state" where
  "init_fields v c =
     \<lparr>hidePBR = (case cfg_hidePBR c of Some b \<Rightarrow> Some b | None \<Rightarrow> v_scene_hidePBR v),
      hideSAO = (case cfg_hideSAO c of Some b \<Rightarrow> Some b | None \<Rightarrow> Some (v_scene_sao_enabled v)),
      hideEdges = (case cfg_hideEdges c of Some b \<Rightarrow> Some b | None \<Rightarrow> Some (v_scene_edges v)),
      maxTreeDepth = MAX_KD_TREE_DEPTH,
      modelInfos = [],
      kdRoot = None,
      hideSmallerThan = 409,
      hideMoreTrianglesThan = 14,
      hideTypes = [],
      dontHideTypes = [],
      hideTypesMap = Map.empty,
      dontHideTypesMap = Map.empty,
      cullSet = [],
      cullSetLen = 0,
      cullSetDirty = True,
      frustumDirty = False,
      kdTreeDirty = False,
      culling = None,
      pInterval = None,
      pInterval2 = None,
      fadeMillisecs = 500,
      img = None,
      timer = timeoutDuration,
      fastMode = False,
      down = False,
      scene_pbr = v_scene_pbr v,
      scene_sao_enabled = v_scene_sao_enabled v,
      scene_edges = v_scene_edges v,
      scene_aabb = v_scene_aabb v,
      metaObjects = v_metaObjects v,
      objects = v_objects v,
      objectsViewCulled = v_objectsViewCulled v,
      objectsDetailCulled = v_objectsDetailCulled v,
      timers = v_timers v,
      nextTimer = v_nextTimer v\<rparr>"

text \<open>The constructor ends by routing every configuration property through its setter.\<close>

definition constructor :: "viewer \<Rightarrow> cfg \<Rightarrow> state" where
  "constructor v c =
     (let s = init_fields v c;
          s = set_hidePBR (cfg_hidePBR c) s;
          s = set_hideSAO (cfg_hideSAO c) s;
          s = set_hideEdges (cfg_hideEdges c) s;
          s = set_hideSmallerThan (cfg_hideSmallerThan c) s;
          s = set_hideMoreTrianglesThan (cfg_hideMoreTrianglesThan c) s;
          s = set_hideTypes (cfg_hideTypes c) s
      in set_dontHideTypes (cfg_dontHideTypes c) s)"

section \<open>The reference predicate of the detail-cull selector\<close>

text \<open>
  The fixed precedence as the specification words it: never-hide is terminal, then
  always-hide, then the thresholds by which of them are enabled (non-zero). An object without
  type metadata has no type and matches neither set.
\<close>

definition reference_culled ::
  "real \<Rightarrow> real \<Rightarrow> string set \<Rightarrow> string set \<Rightarrow> string option \<Rightarrow> real \<Rightarrow> real \<Rightarrow> bool" where
  "reference_culled triangleThreshold sizeThreshold alwaysHide neverHide objType triangleCount diagonalSize =
     (if (case objType of Some t \<Rightarrow> t \<in> neverHide | None \<Rightarrow> False) then False
      else if (case objType of Some t \<Rightarrow> t \<in> alwaysHide | None \<Rightarrow> False) then True
      else if triangleThreshold \<noteq> 0 \<and> sizeThreshold \<noteq> 0
           then triangleCount \<ge> triangleThreshold \<and> diagonalSize \<le> sizeThreshold
      else if triangleThreshold \<noteq> 0 then triangleCount \<ge> triangleThreshold
      else if sizeThreshold \<noteq> 0 then diagonalSize \<le> sizeThreshold
      else False)"


text \<open>
  The object at an index carries a type that is the name of a property every plain object
  inherits.
\<close>

definition inherited_type :: "state \<Rightarrow> nat \<Rightarrow> bool" where
  "inherited_type s objectIdx =
     (case metaObjects s (entity_id (objects s ! objectIdx)) of
        Some m \<Rightarrow> metaType m \<in> set ObjectPrototype_keys
      | None \<Rightarrow> False)"

text \<open>
  The reference predicate with both type sets enlarged by the inherited property names, which
  is what the lookups in the type maps find.
\<close>

definition lookup_culled_at :: "state \<Rightarrow> nat \<Rightarrow> bool" where
  "lookup_culled_at s objectIdx =
     (let entity = objects s ! objectIdx
      in reference_culled (hideMoreTrianglesThan s) (hideSmallerThan s)
           (set (hideTypes s) \<union> set ObjectPrototype_keys)
           (set (dontHideTypes s) \<union> set ObjectPrototype_keys)
           (map_option metaType (metaObjects s (entity_id entity)))
           (real (numTriangles entity)) (getAABB3Diag (entity_aabb entity)))"

text \<open>The type maps are the ones their setters built from the type lists.\<close>

definition typeMaps_set :: "state \<Rightarrow> bool" where
  "typeMaps_set s \<longleftrightarrow>
     hideTypesMap s = typesMap (hideTypes s) \<and> dontHideTypesMap s = typesMap (dontHideTypes s)"

section \<open>The crossfade overlay\<close>

text \<open>
  \<open>_initFade\<close> creates the image element, hidden and opaque. Positioning, size and z-index
  are DOM layout and are not represented.
\<close>

definition initFade :: "state \<Rightarrow> state" where
  "initFade s = s\<lparr>img := Some \<lparr>img_src = [], img_visible = False, img_opacity = 1\<rparr>\<rparr>"

text \<open>\<open>if (h) { clearInterval(h); field = null; }\<close> on a timer handle held in a field.\<close>

definition clear_if_set :: "nat option \<Rightarrow> state \<Rightarrow> state" where
  "clear_if_set v s = (case v of Some h \<Rightarrow> if h \<noteq> 0 then clearInterval h s else s | None \<Rightarrow> s)"

definition null_if_set :: "nat option \<Rightarrow> nat option" where
  "null_if_set v = (if handle_truthy v then None else v)"

text \<open>
  \<open>_startFade\<close>. The argument \<open>snapshot\<close> is what \<open>viewer.getSnapshot\<close> does when it is called:
  \<open>Some\<close> of the image data it returns, or \<open>None\<close> when the call throws. A throw leaves the
  function at that statement, with everything assigned before it kept.
\<close>

definition startFade :: "string option \<Rightarrow> state \<Rightarrow> (error \<times> state) + state" where
  "startFade snapshot s =
     (let s = (if img s = None then initFade s else s);
          interval = 50;
          inc = 1 / (fadeMillisecs s / interval);
          s = (clear_if_set (pInterval s) s)\<lparr>pInterval := null_if_set (pInterval s)\<rparr>;
          s = s\<lparr>img := map_option (\<lambda>i. i\<lparr>img_src := []\<rparr>) (img s)\<rparr>
      in case snapshot of
           None \<Rightarrow> Inl (SnapshotError, s)
         | Some data \<Rightarrow>
             (let s = s\<lparr>img := map_option (\<lambda>i. i\<lparr>img_src := data, img_visible := True, img_opacity := 1\<rparr>) (img s)\<rparr>;
                  opacity = 1
              in case setTimer (FadeStep opacity inc) s of
                   (h, s) \<Rightarrow> Inr (s\<lparr>pInterval := Some h\<rparr>)))"

text \<open>
  The callback given to \<open>setInterval\<close> by \<open>_startFade\<close>, run for the timer \<open>h\<close> whose closure
  holds \<open>opacity\<close> and \<open>inc\<close>. Reading \<open>this._img.style\<close> when \<open>_img\<close> is null throws.
\<close>

definition fadeStep :: "nat \<Rightarrow> real \<Rightarrow> real \<Rightarrow> state \<Rightarrow> (error \<times> state) + state" where
  "fadeStep h opacity inc s =
     (let opacity = opacity - inc;
          s = s\<lparr>timers := (timers s)(h \<mapsto> FadeStep opacity inc)\<rparr>
      in case img s of
           None \<Rightarrow> Inl (TypeError, s)
         | Some i \<Rightarrow>
             if opacity > 0 then Inr (s\<lparr>img := Some (i\<lparr>img_opacity := opacity\<rparr>)\<rparr>)
             else
               (let s = s\<lparr>img := Some (i\<lparr>img_opacity := 0, img_visible := False\<rparr>)\<rparr>;
                    s = (case pInterval s of Some h' \<Rightarrow> clearInterval h' s | None \<Rightarrow> s)
                in Inr (s\<lparr>pInterval := None\<rparr>)))"

definition cancelFade :: "state \<Rightarrow> state" where
  "cancelFade s =
     (case img s of
        None \<Rightarrow> s
      | Some i \<Rightarrow>
          (let s = (clear_if_set (pInterval s) s)\<lparr>pInterval := null_if_set (pInterval s)\<rparr>;
               s = (clear_if_set (pInterval2 s) s)\<lparr>pInterval2 := null_if_set (pInterval2 s)\<rparr>
           in s\<lparr>img := Some (i\<lparr>img_opacity := 0, img_visible := False\<rparr>)\<rparr>))"

section \<open>The motion state machine\<close>

text \<open>\<open>startHiding\<close>, the handler of the canvas boundary, view matrix and projection matrix events.\<close>

definition startHiding :: "state \<Rightarrow> state" where
  "startHiding s =
     (let s = s\<lparr>timer := timeoutDuration\<rparr>;
          s = (if \<not> fastMode s then
                 (let s = cancelFade s;
                      s = (if truthy (hidePBR s) then s\<lparr>scene_pbr := False\<rparr> else s);
                      s = (if truthy (hideSAO s) then s\<lparr>scene_sao_enabled := False\<rparr> else s);
                      s = (if truthy (hideEdges s) then s\<lparr>scene_edges := False\<rparr> else s);
                      s = setObjectsCulled True s
                  in s\<lparr>fastMode := True\<rparr>)
               else s)
      in s\<lparr>frustumDirty := True\<rparr>)"

text \<open>The closure given to \<open>setTimeout\<close> by the tick handler.\<close>

definition recovery :: "state \<Rightarrow> state" where
  "recovery s =
     (let s = (if truthy (hidePBR s) then s\<lparr>scene_pbr := True\<rparr> else s);
          s = (if truthy (hideSAO s) then s\<lparr>scene_sao_enabled := True\<rparr> else s);
          s = (if truthy (hideEdges s) then s\<lparr>scene_edges := True\<rparr> else s)
      in setObjectsCulled False s)"

text \<open>
  The tick handler. An exception thrown by \<open>_startFade\<close> is not caught: it leaves the handler
  before \<open>setTimeout\<close> and before \<open>fastMode = false\<close>.
\<close>

definition onSceneTick :: "real \<Rightarrow> string option \<Rightarrow> state \<Rightarrow> (error \<times> state) + state" where
  "onSceneTick deltaTime snapshot s =
     (if \<not> fastMode s then Inr s
      else
        (let s = s\<lparr>timer := timer s - deltaTime\<rparr>
         in if timer s \<le> 0 then
              (if fastMode s then
                 (case startFade snapshot s of
                    Inl es \<Rightarrow> Inl es
                  | Inr s \<Rightarrow>
                      (case setTimer Recovery s of
                         (h, s) \<Rightarrow> Inr (s\<lparr>pInterval2 := Some h, fastMode := False\<rparr>)))
               else Inr s)
            else Inr s))"

definition onSceneMouseDown :: "state \<Rightarrow> state" where
  "onSceneMouseDown s = s\<lparr>down := True\<rparr>"

definition onSceneMouseUp :: "state \<Rightarrow> state" where
  "onSceneMouseUp s = s\<lparr>down := False\<rparr>"

definition onSceneMouseMove :: "state \<Rightarrow> state" where
  "onSceneMouseMove s = (if \<not> down s then s else startHiding s)"

definition send_clear :: "state \<Rightarrow> state" where
  "send_clear s = cancelFade s"

text \<open>
  The browser runs the callback of a live timer. A timeout is removed from the table when it
  fires; an interval stays until it is cleared. A handle that is not in the table does nothing.
\<close>

definition fireTimer :: "nat \<Rightarrow> state \<Rightarrow> (error \<times> state) + state" where
  "fireTimer h s =
     (case timers s h of
        None \<Rightarrow> Inr s
      | Some Recovery \<Rightarrow> Inr (recovery (s\<lparr>timers := (timers s)(h := None)\<rparr>))
      | Some (FadeStep opacity inc) \<Rightarrow> fadeStep h opacity inc s)"

text \<open>\<open>destroy\<close>. Releasing the event subscriptions leaves the fields of the state as they are.\<close>

definition destroy :: "state \<Rightarrow> state" where
  "destroy s =
     (let s = cancelFade s;
          s = fold (\<lambda>objectIdx. setObjectDetailCulled objectIdx False) (take (cullSetLen s) (cullSet s)) s;
          s = s\<lparr>modelInfos := [], cullSet := [], cullSetLen := 0\<rparr>
      in s\<lparr>img := None\<rparr>)"

text \<open>
  The events that reach a live plugin, and the state each leaves behind. An event handler that
  throws leaves the state it had reached.
\<close>

datatype event =
    Boundary | ViewMatrix | ProjMatrix
  | Tick real "string option"
  | MouseDown | MouseUp | MouseMove
  | TimerFires nat
  | SetHidePBR "bool option" | SetHideSAO "bool option" | SetHideEdges "bool option"
  | SetHideSmallerThan "real option" | SetHideMoreTrianglesThan "real option"
  | SetHideTypes "string list option" | SetDontHideTypes "string list option"
  | SendClear

definition after :: "(error \<times> state) + state \<Rightarrow> state" where
  "after r = (case r of Inl (e, s) \<Rightarrow> s | Inr s \<Rightarrow> s)"

fun step :: "event \<Rightarrow> state \<Rightarrow> state" where
  "step Boundary s = startHiding s"
| "step ViewMatrix s = startHiding s"
| "step ProjMatrix s = startHiding s"
| "step (Tick deltaTime snapshot) s = after (onSceneTick deltaTime snapshot s)"
| "step MouseDown s = onSceneMouseDown s"
| "step MouseUp s = onSceneMouseUp s"
| "step MouseMove s = onSceneMouseMove s"
| "step (TimerFires h) s = after (fireTimer h s)"
| "step (SetHidePBR v) s = set_hidePBR v s"
| "step (SetHideSAO v) s = set_hideSAO v s"
| "step (SetHideEdges v) s = set_hideEdges v s"
| "step (SetHideSmallerThan v) s = set_hideSmallerThan v s"
| "step (SetHideMoreTrianglesThan v) s = set_hideMoreTrianglesThan v s"
| "step (SetHideTypes v) s = set_hideTypes v s"
| "step (SetDontHideTypes v) s = set_dontHideTypes v s"
| "step SendClear s = send_clear s"

text \<open>Running a list of events, first event first.\<close>

definition run :: "event list \<Rightarrow> state \<Rightarrow> state" where
  "run es s = fold step es s"

section \<open>The KD-tree\<close>

text \<open>
  \<open>kdNode.objects = kdNode.objects || []; kdNode.objects.push(objectIdx);
  math.expandAABB3(kdNode.aabb, entityAABB)\<close>: the object lands in the node's overflow list and
  the node's bound is expanded.
\<close>

definition kd_store :: "kdNode \<Rightarrow> aabb3 \<Rightarrow> nat \<Rightarrow> kdNode" where
  "kd_store kdNode entityAABB objectIdx =
     KDNode (expandAABB3 (node_aabb kdNode) entityAABB) (node_intersection kdNode)
            (left kdNode) (right kdNode)
            (Some ((case node_objects kdNode of Some xs \<Rightarrow> xs | None \<Rightarrow> []) @ [objectIdx]))"

definition set_left :: "kdNode \<Rightarrow> kdNode \<Rightarrow> kdNode" where
  "set_left kdNode l =
     KDNode (node_aabb kdNode) (node_intersection kdNode) (Some l) (right kdNode) (node_objects kdNode)"

definition set_right :: "kdNode \<Rightarrow> kdNode \<Rightarrow> kdNode" where
  "set_right kdNode r =
     KDNode (node_aabb kdNode) (node_intersection kdNode) (left kdNode) (Some r) (node_objects kdNode)"

text \<open>\<open>if (child) { if (math.containsAABB3(child.aabb, entityAABB)) ... }\<close>: the child to descend into.\<close>

definition containing_child :: "kdNode option \<Rightarrow> aabb3 \<Rightarrow> kdNode option" where
  "containing_child child entityAABB =
     (case child of
        Some c \<Rightarrow> if containsAABB3 (node_aabb c) entityAABB then Some c else None
      | None \<Rightarrow> None)"

text \<open>
  The choice of the split axis. The three extents are stored in the module's \<open>Float32Array\<close>
  \<open>kdTreeDimLength\<close> before they are compared; \<open>f32\<close> is the rounding of that store.
\<close>

definition splitDim :: "(real \<Rightarrow> real) \<Rightarrow> aabb3 \<Rightarrow> nat" where
  "splitDim f32 nodeAABB =
     (let kdTreeDimLength = [f32 (aabb_at nodeAABB 3 - aabb_at nodeAABB 0),
                             f32 (aabb_at nodeAABB 4 - aabb_at nodeAABB 1),
                             f32 (aabb_at nodeAABB 5 - aabb_at nodeAABB 2)];
          dim = 0;
          dim = (if kdTreeDimLength ! 1 > kdTreeDimLength ! dim then 1 else dim);
          dim = (if kdTreeDimLength ! 2 > kdTreeDimLength ! dim then 2 else dim)
      in dim)"

definition aabbLeft :: "aabb3 \<Rightarrow> nat \<Rightarrow> aabb3" where
  "aabbLeft nodeAABB axis =
     aabb_put nodeAABB (axis + 3) ((aabb_at nodeAABB axis + aabb_at nodeAABB (axis + 3)) / 2)"

definition aabbRight :: "aabb3 \<Rightarrow> nat \<Rightarrow> aabb3" where
  "aabbRight nodeAABB axis =
     aabb_put nodeAABB axis ((aabb_at nodeAABB axis + aabb_at nodeAABB (axis + 3)) / 2)"

definition new_node :: "aabb3 \<Rightarrow> kdNode" where
  "new_node box = KDNode box INTERSECT None None None"

text \<open>
  \<open>_insertEntityIntoKDTree\<close>. Each \<open>return\<close> of the source ends a branch here. A missing left
  child is created even when the object does not go into it, and stays; the same holds for
  the right child.
\<close>

function insertEntityIntoKDTree ::
  "nat \<Rightarrow> (real \<Rightarrow> real) \<Rightarrow> kdNode \<Rightarrow> aabb3 \<Rightarrow> nat \<Rightarrow> nat \<Rightarrow> kdNode" where
  "insertEntityIntoKDTree maxDepth f32 kdNode entityAABB objectIdx depth =
     (if depth \<ge> maxDepth then kd_store kdNode entityAABB objectIdx
      else case containing_child (left kdNode) entityAABB of
        Some l \<Rightarrow> set_left kdNode (insertEntityIntoKDTree maxDepth f32 l entityAABB objectIdx (depth + 1))
      | None \<Rightarrow>
       (case containing_child (right kdNode) entityAABB of
          Some r \<Rightarrow> set_right kdNode (insertEntityIntoKDTree maxDepth f32 r entityAABB objectIdx (depth + 1))
        | None \<Rightarrow>
           (let nodeAABB = node_aabb kdNode;
                dim = splitDim f32 nodeAABB;
                newLeft = new_node (aabbLeft nodeAABB dim)
            in if left kdNode = None \<and> containsAABB3 (node_aabb newLeft) entityAABB
               then set_left kdNode (insertEntityIntoKDTree maxDepth f32 newLeft entityAABB objectIdx (depth + 1))
               else
                 (let kdNode = (if left kdNode = None then set_left kdNode newLeft else kdNode);
                      newRight = new_node (aabbRight nodeAABB dim)
                  in if right kdNode = None \<and> containsAABB3 (node_aabb newRight) entityAABB
                     then set_right kdNode (insertEntityIntoKDTree maxDepth f32 newRight entityAABB objectIdx (depth + 1))
                     else
                       (let kdNode = (if right kdNode = None then set_right kdNode newRight else kdNode)
                        in kd_store kdNode entityAABB objectIdx)))))"
  by pat_completeness auto
termination
  by (relation "measure (\<lambda>(maxDepth, f32, kdNode, entityAABB, objectIdx, depth). maxDepth - depth)") auto

text \<open>
  The depths at which \<open>_insertEntityIntoKDTree\<close> is entered during one insertion, outermost
  call first: the same branches as above, recording the \<open>depth\<close> argument of every call.
\<close>

function insertEntityIntoKDTree_depths ::
  "nat \<Rightarrow> (real \<Rightarrow> real) \<Rightarrow> kdNode \<Rightarrow> aabb3 \<Rightarrow> nat \<Rightarrow> nat \<Rightarrow> nat list" where
  "insertEntityIntoKDTree_depths maxDepth f32 kdNode entityAABB objectIdx depth =
     (if depth \<ge> maxDepth then [depth]
      else case containing_child (left kdNode) entityAABB of
        Some l \<Rightarrow> depth # insertEntityIntoKDTree_depths maxDepth f32 l entityAABB objectIdx (depth + 1)
      | None \<Rightarrow>
       (case containing_child (right kdNode) entityAABB of
          Some r \<Rightarrow> depth # insertEntityIntoKDTree_depths maxDepth f32 r entityAABB objectIdx (depth + 1)
        | None \<Rightarrow>
           (let nodeAABB = node_aabb kdNode;
                dim = splitDim f32 nodeAABB;
                newLeft = new_node (aabbLeft nodeAABB dim)
            in if left kdNode = None \<and> containsAABB3 (node_aabb newLeft) entityAABB
               then depth # insertEntityIntoKDTree_depths maxDepth f32 newLeft entityAABB objectIdx (depth + 1)
               else
                 (let kdNode = (if left kdNode = None then set_left kdNode newLeft else kdNode);
                      newRight = new_node (aabbRight nodeAABB dim)
                  in if right kdNode = None \<and> containsAABB3 (node_aabb newRight) entityAABB
                     then depth # insertEntityIntoKDTree_depths maxDepth f32 newRight entityAABB objectIdx (depth + 1)
                     else [depth]))))"
  by pat_completeness auto
termination
  by (relation "measure (\<lambda>(maxDepth, f32, kdNode, entityAABB, objectIdx, depth). maxDepth - depth)") auto

text \<open>
  \<open>_buildKDTree\<close>: a fresh root over the scene's bound, then every object of the store
  inserted in index order, each insertion entered with \<open>depth + 1\<close> where \<open>depth = 0\<close>.
\<close>

definition buildKDTree_root :: "(real \<Rightarrow> real) \<Rightarrow> state \<Rightarrow> nat list \<Rightarrow> kdNode" where
  "buildKDTree_root f32 s objectIdxs =
     (let depth = 0
      in fold (\<lambda>objectIdx kdRoot.
                 insertEntityIntoKDTree (maxTreeDepth s) f32 kdRoot
                   (entity_aabb (objects s ! objectIdx)) objectIdx (depth + 1))
              objectIdxs (new_node (scene_aabb s)))"

definition buildKDTree :: "(real \<Rightarrow> real) \<Rightarrow> state \<Rightarrow> state" where
  "buildKDTree f32 s =
     s\<lparr>kdRoot := Some (buildKDTree_root f32 s [0 ..< numObjects s]), kdTreeDirty := False\<rparr>"

section \<open>A small scene used to run the definitions\<close>

definition example_objects :: "entity list" where
  "example_objects =
     [\<lparr>entity_id = ''wall'', numTriangles = 10,
       entity_aabb = \<lparr>a0 = 0, a1 = 0, a2 = 0, a3 = 3, a4 = 4, a5 = 0\<rparr>\<rparr>,
      \<lparr>entity_id = ''chair'', numTriangles = 5,
       entity_aabb = \<lparr>a0 = 0, a1 = 0, a2 = 0, a3 = 1, a4 = 0, a5 = 0\<rparr>\<rparr>,
      \<lparr>entity_id = ''slab'', numTriangles = 2,
       entity_aabb = \<lparr>a0 = 1, a1 = 1, a2 = 1, a3 = 1, a4 = 1, a5 = 1\<rparr>\<rparr>]"

definition example_metaObjects :: "string \<rightharpoonup> metaObject" where
  "example_metaObjects =
     [''wall'' \<mapsto> \<lparr>metaType = ''IfcWall''\<rparr>, ''chair'' \<mapsto> \<lparr>metaType = ''IfcFurniture''\<rparr>]"

definition example_viewer :: viewer where
  "example_viewer =
     \<lparr>v_scene_hidePBR = None, v_scene_pbr = True, v_scene_sao_enabled = True, v_scene_edges = True,
      v_scene_aabb = \<lparr>a0 = 0, a1 = 0, a2 = 0, a3 = 4, a4 = 4, a5 = 4\<rparr>,
      v_metaObjects = example_metaObjects, v_objects = example_objects,
      v_objectsViewCulled = (\<lambda>i. False), v_objectsDetailCulled = (\<lambda>i. False),
      v_timers = Map.empty, v_nextTimer = 1\<rparr>"

definition default_cfg :: cfg where
  "default_cfg =
     \<lparr>cfg_hidePBR = None, cfg_hideSAO = None, cfg_hideEdges = None,
      cfg_hideSmallerThan = None, cfg_hideMoreTrianglesThan = None,
      cfg_hideTypes = None, cfg_dontHideTypes = None\<rparr>"


text \<open>Culling that looks at the type lists only: the type is always-hide and not never-hide.\<close>

definition culled_by_type :: "state \<Rightarrow> nat \<Rightarrow> bool" where
  "culled_by_type s objectIdx =
     (case metaObjects s (entity_id (objects s ! objectIdx)) of
        Some m \<Rightarrow> metaType m \<notin> set (dontHideTypes s) \<and> metaType m \<in> set (hideTypes s)
      | None \<Rightarrow> False)"

definition never_hidden :: "state \<Rightarrow> nat \<Rightarrow> bool" where
  "never_hidden s objectIdx =
     (case metaObjects s (entity_id (objects s ! objectIdx)) of
        Some m \<Rightarrow> metaType m \<in> set (dontHideTypes s)
      | None \<Rightarrow> False)"

section \<open>Predicates on KD-trees\<close>

text \<open>
  The points of a box, and containment of one box in another as point sets: a box with a
  minimum above its maximum on some axis has no points and lies in every box.
\<close>

definition aabb_points :: "aabb3 \<Rightarrow> (real \<times> real \<times> real) set" where
  "aabb_points b = {(x, y, z). a0 b \<le> x \<and> x \<le> a3 b \<and> a1 b \<le> y \<and> y \<le> a4 b \<and> a2 b \<le> z \<and> z \<le> a5 b}"

definition aabb_empty :: "aabb3 \<Rightarrow> bool" where
  "aabb_empty b \<longleftrightarrow> a3 b < a0 b \<or> a4 b < a1 b \<or> a5 b < a2 b"

definition box_subset :: "aabb3 \<Rightarrow> aabb3 \<Rightarrow> bool" where
  "box_subset inner outer \<longleftrightarrow> aabb_empty inner \<or> containsAABB3 outer inner"

text \<open>The objects registered in the subtree of a node: its overflow list and its children's.\<close>

fun subtree_objects :: "kdNode \<Rightarrow> nat list" where
  "subtree_objects (KDNode b i l r os) =
     (case os of Some xs \<Rightarrow> xs | None \<Rightarrow> [])
     @ (case l of Some n \<Rightarrow> subtree_objects n | None \<Rightarrow> [])
     @ (case r of Some n \<Rightarrow> subtree_objects n | None \<Rightarrow> [])"

text \<open>
  Containment: at every node of the tree, the node's bound contains the box of every object
  registered in the node's subtree.
\<close>

fun kd_contained :: "(nat \<Rightarrow> aabb3) \<Rightarrow> kdNode \<Rightarrow> bool" where
  "kd_contained box (KDNode b i l r os) \<longleftrightarrow>
     list_all (\<lambda>idx. box_subset (box idx) b) (subtree_objects (KDNode b i l r os))
     \<and> (case l of Some n \<Rightarrow> kd_contained box n | None \<Rightarrow> True)
     \<and> (case r of Some n \<Rightarrow> kd_contained box n | None \<Rightarrow> True)"

text \<open>
  The invariant that insertion maintains: a node's bound contains the boxes of its own
  overflow list and the bounds of its children.
\<close>

fun kd_inv :: "(nat \<Rightarrow> aabb3) \<Rightarrow> kdNode \<Rightarrow> bool" where
  "kd_inv box (KDNode b i l r os) \<longleftrightarrow>
     list_all (\<lambda>idx. box_subset (box idx) b) (case os of Some xs \<Rightarrow> xs | None \<Rightarrow> [])
     \<and> (case l of Some n \<Rightarrow> box_subset (node_aabb n) b \<and> kd_inv box n | None \<Rightarrow> True)
     \<and> (case r of Some n \<Rightarrow> box_subset (node_aabb n) b \<and> kd_inv box n | None \<Rightarrow> True)"

text \<open>
  Growth from one tree to a later one: every node of the earlier tree is still there, with a
  bound that contains its earlier bound.
\<close>

fun kd_grows :: "kdNode \<Rightarrow> kdNode \<Rightarrow> bool" where
  "kd_grows (KDNode b i l r os) (KDNode b' i' l' r' os') \<longleftrightarrow>
     containsAABB3 b' b
     \<and> (case l of Some n \<Rightarrow> (case l' of Some n' \<Rightarrow> kd_grows n n' | None \<Rightarrow> False) | None \<Rightarrow> True)
     \<and> (case r of Some n \<Rightarrow> (case r' of Some n' \<Rightarrow> kd_grows n n' | None \<Rightarrow> False) | None \<Rightarrow> True)"

text \<open>The box of the object at an index of the store.\<close>

definition objectAABB :: "state \<Rightarrow> nat \<Rightarrow> aabb3" where
  "objectAABB s objectIdx = entity_aabb (objects s ! objectIdx)"

text \<open>The number of levels of a tree; a node without children has one level.\<close>

fun kd_height :: "kdNode \<Rightarrow> nat" where
  "kd_height (KDNode b i l r os) =
     1 + max (case l of Some n \<Rightarrow> kd_height n | None \<Rightarrow> 0)
             (case r of Some n \<Rightarrow> kd_height n | None \<Rightarrow> 0)"

text \<open>A node after \<open>_insertEntityIntoKDTree\<close> has created its missing left or right child.\<close>

definition with_left :: "(real \<Rightarrow> real) \<Rightarrow> kdNode \<Rightarrow> kdNode" where
  "with_left f32 n =
     (if left n = None
      then set_left n (new_node (aabbLeft (node_aabb n) (splitDim f32 (node_aabb n)))) else n)"

definition with_right :: "(real \<Rightarrow> real) \<Rightarrow> kdNode \<Rightarrow> kdNode" where
  "with_right f32 n =
     (if right n = None
      then set_right n (new_node (aabbRight (node_aabb n) (splitDim f32 (node_aabb n)))) else n)"

declare insertEntityIntoKDTree.simps [simp del]
declare insertEntityIntoKDTree_depths.simps [simp del]

text \<open>The tree built over the three objects of the example scene, without rounding.\<close>

definition example_tree :: kdNode where
  "example_tree = buildKDTree_root (\<lambda>x. x) (constructor example_viewer default_cfg) [0, 1, 2]"

section \<open>Invariants of the timer table\<close>

text \<open>
  Every live timer of the plugin is held in the field that the plugin clears it through: a
  pending recovery is the handle in \<open>_pInterval2\<close> and exists only outside fast mode, a
  running fade step is the handle in \<open>_pInterval\<close>; handles are non-zero, below the next
  handle the browser will hand out, and the overlay image exists.
\<close>

definition tracked_fields ::
  "(nat \<rightharpoonup> callback) \<Rightarrow> nat \<Rightarrow> bool \<Rightarrow> nat option \<Rightarrow> nat option \<Rightarrow> bool \<Rightarrow> bool" where
  "tracked_fields tm next hasImg pI pI2 fast \<longleftrightarrow>
     0 < next
     \<and> (\<forall>h. case tm h of
               None \<Rightarrow> True
             | Some cb \<Rightarrow>
                 h \<noteq> 0 \<and> h < next \<and> hasImg
                 \<and> (case cb of
                       Recovery \<Rightarrow> pI2 = Some h \<and> \<not> fast
                     | FadeStep opacity inc \<Rightarrow> pI = Some h))"

definition timers_tracked :: "state \<Rightarrow> bool" where
  "timers_tracked s \<longleftrightarrow>
     tracked_fields (timers s) (nextTimer s) (img s \<noteq> None) (pInterval s) (pInterval2 s) (fastMode s)"

text \<open>
  From one state to a later one the handle counter does not go back, and a handle that was
  already handed out and is not live stays out of the table.
\<close>

definition only_new :: "state \<Rightarrow> state \<Rightarrow> bool" where
  "only_new s s' \<longleftrightarrow>
     nextTimer s \<le> nextTimer s' \<and> (\<forall>h. h < nextTimer s \<and> timers s h = None \<longrightarrow> timers s' h = None)"

text \<open>Configurations and a viewer of the example scene used to run the state machine.\<close>

definition effects_cfg :: cfg where
  "effects_cfg =
     default_cfg\<lparr>cfg_hidePBR := Some True, cfg_hideSAO := Some True, cfg_hideEdges := Some True,
                 cfg_hideMoreTrianglesThan := Some 5\<rparr>"

text \<open>
  The Quality-to-Fast triggers: a canvas boundary, view matrix or projection matrix change,
  or a mouse move while a button is down.
\<close>

definition is_trigger :: "event \<Rightarrow> state \<Rightarrow> bool" where
  "is_trigger ev s \<longleftrightarrow> ev = Boundary \<or> ev = ViewMatrix \<or> ev = ProjMatrix \<or> (ev = MouseMove \<and> down s)"

definition triangles_cfg :: cfg where
  "triangles_cfg = default_cfg\<lparr>cfg_hideMoreTrianglesThan := Some 5\<rparr>"

text \<open>A configuration with an always-hide type only.\<close>

definition types_cfg :: cfg where
  "types_cfg = default_cfg\<lparr>cfg_hideTypes := Some [''IfcFurniture'']\<rparr>"


definition view_culled_viewer :: viewer where
  "view_culled_viewer = example_viewer\<lparr>v_objectsViewCulled := (\<lambda>i. i = 0)\<rparr>"

section \<open>Lemmas about the detail-cull set\<close>

lemma typesMap_lookup_aux:
  "fold (\<lambda>t m. m(t \<mapsto> True)) ts m0 t = (if t \<in> set ts then Some True else m0 t)"
  by (induction ts arbitrary: m0) auto

lemma lookup_typesMap:
  "lookup_truthy (typesMap ts) t \<longleftrightarrow> t \<in> set ts \<or> t \<in> set ObjectPrototype_keys"
  by (simp add: typesMap_def typesMap_lookup_aux lookup_truthy_def)

lemma take_array_put: "n \<le> length xs \<Longrightarrow> take (Suc n) (array_put xs n v) = take n xs @ [v]"
  by (auto simp: array_put_def take_Suc_conv_app_nth)

lemma length_array_put: "n \<le> length xs \<Longrightarrow> Suc n \<le> length (array_put xs n v)"
  by (auto simp: array_put_def)

lemma body_cases:
  assumes "typeMaps_set s"
  shows "buildCullObjects_body i s = (if lookup_culled_at s i then cullSet_push i s else s)"
proof -
  have m: "lookup_truthy (hideTypesMap s) t \<longleftrightarrow> t \<in> set (hideTypes s) \<union> set ObjectPrototype_keys"
          "lookup_truthy (dontHideTypesMap s) t \<longleftrightarrow> t \<in> set (dontHideTypes s) \<union> set ObjectPrototype_keys"
    for t
    using assms by (simp_all add: typeMaps_set_def lookup_typesMap)
  show ?thesis
  proof (cases "metaObjects s (entity_id (objects s ! i))")
    case None
    then show ?thesis
      by (simp add: buildCullObjects_body_def lookup_culled_at_def reference_culled_def Let_def)
  next
    case (Some mo)
    then show ?thesis
      by (simp add: buildCullObjects_body_def lookup_culled_at_def reference_culled_def Let_def m
          del: Un_iff)
  qed
qed

lemma body_frame: "\<exists>cs n. buildCullObjects_body i s = s\<lparr>cullSet := cs, cullSetLen := n\<rparr>"
proof (cases "buildCullObjects_body i s = s")
  case True
  then have "buildCullObjects_body i s = s\<lparr>cullSet := cullSet s, cullSetLen := cullSetLen s\<rparr>" by simp
  then show ?thesis by blast
next
  case False
  then have "buildCullObjects_body i s = cullSet_push i s"
    by (auto simp: buildCullObjects_body_def Let_def split: if_splits)
  then show ?thesis unfolding cullSet_push_def by blast
qed

lemma fold_body_frame: "\<exists>cs n. fold buildCullObjects_body is s = s\<lparr>cullSet := cs, cullSetLen := n\<rparr>"
proof (induction "is" arbitrary: s)
  case Nil
  have "s = s\<lparr>cullSet := cullSet s, cullSetLen := cullSetLen s\<rparr>" by simp
  then show ?case by (metis fold_simps(1))
next
  case (Cons i "is")
  obtain cs n where a: "buildCullObjects_body i s = s\<lparr>cullSet := cs, cullSetLen := n\<rparr>"
    using body_frame by blast
  obtain cs' n' where b: "fold buildCullObjects_body is (s\<lparr>cullSet := cs, cullSetLen := n\<rparr>)
      = s\<lparr>cullSet := cs, cullSetLen := n\<rparr>\<lparr>cullSet := cs', cullSetLen := n'\<rparr>"
    using Cons.IH by blast
  show ?case using a b by (simp) blast
qed

lemma ref_at_frame [simp]:
  "lookup_culled_at (s\<lparr>cullSet := cs\<rparr>) = lookup_culled_at s"
  "lookup_culled_at (s\<lparr>cullSetLen := n\<rparr>) = lookup_culled_at s"
  "lookup_culled_at (s\<lparr>objectsViewCulled := f\<rparr>) = lookup_culled_at s"
  by (simp_all add: lookup_culled_at_def fun_eq_iff)

lemma typeMaps_frame [simp]:
  "typeMaps_set (s\<lparr>cullSet := cs\<rparr>) = typeMaps_set s"
  "typeMaps_set (s\<lparr>cullSetLen := n\<rparr>) = typeMaps_set s"
  "typeMaps_set (s\<lparr>objectsViewCulled := f\<rparr>) = typeMaps_set s"
  by (simp_all add: typeMaps_set_def)

lemma fold_body_built:
  assumes "typeMaps_set s" "cullSetLen s \<le> length (cullSet s)"
  shows "builtCullSet (fold buildCullObjects_body is s) = builtCullSet s @ filter (lookup_culled_at s) is
       \<and> cullSetLen (fold buildCullObjects_body is s) \<le> length (cullSet (fold buildCullObjects_body is s))"
  using assms
proof (induction "is" arbitrary: s)
  case Nil
  then show ?case by simp
next
  case (Cons i "is")
  let ?s' = "buildCullObjects_body i s"
  obtain cs n where fr: "?s' = s\<lparr>cullSet := cs, cullSetLen := n\<rparr>" using body_frame by blast
  have tm: "typeMaps_set ?s'" using Cons.prems(1) by (simp add: fr)
  have rf: "lookup_culled_at ?s' = lookup_culled_at s" by (simp add: fr)
  have len: "cullSetLen ?s' \<le> length (cullSet ?s')"
    using Cons.prems by (simp add: body_cases cullSet_push_def length_array_put)
  have bs: "builtCullSet ?s' = builtCullSet s @ (if lookup_culled_at s i then [i] else [])"
    using Cons.prems by (simp add: body_cases cullSet_push_def builtCullSet_def take_array_put)
  show ?case using Cons.IH[OF tm len] bs rf by simp
qed

lemma fold_setView:
  "fold (\<lambda>objectIdx. setObjectViewCulled objectIdx c) xs s =
     s\<lparr>objectsViewCulled := (\<lambda>j. if j \<in> set xs then c else objectsViewCulled s j)\<rparr>"
proof (induction xs arbitrary: s)
  case Nil
  then show ?case by simp
next
  case (Cons x xs)
  let ?s = "setObjectViewCulled x c s"
  have e: "(\<lambda>j. if j \<in> set xs then c else ((objectsViewCulled s)(x := c)) j)
      = (\<lambda>j. if j \<in> set (x # xs) then c else objectsViewCulled s j)"
    by (auto simp: fun_eq_iff)
  have "fold (\<lambda>objectIdx. setObjectViewCulled objectIdx c) (x # xs) s
      = fold (\<lambda>objectIdx. setObjectViewCulled objectIdx c) xs ?s" by simp
  also have "\<dots> = ?s\<lparr>objectsViewCulled := (\<lambda>j. if j \<in> set xs then c else objectsViewCulled ?s j)\<rparr>"
    by (rule Cons.IH)
  also have "\<dots> = s\<lparr>objectsViewCulled := (\<lambda>j. if j \<in> set xs then c else ((objectsViewCulled s)(x := c)) j)\<rparr>"
    by (simp add: setObjectViewCulled_def)
  also have "\<dots> = s\<lparr>objectsViewCulled := (\<lambda>j. if j \<in> set (x # xs) then c else objectsViewCulled s j)\<rparr>"
    by (simp only: e)
  finally show ?case .
qed

lemma fold_setDetail:
  "fold (\<lambda>objectIdx. setObjectDetailCulled objectIdx c) xs s =
     s\<lparr>objectsDetailCulled := (\<lambda>j. if j \<in> set xs then c else objectsDetailCulled s j)\<rparr>"
proof (induction xs arbitrary: s)
  case Nil
  then show ?case by simp
next
  case (Cons x xs)
  let ?s = "setObjectDetailCulled x c s"
  have e: "(\<lambda>j. if j \<in> set xs then c else ((objectsDetailCulled s)(x := c)) j)
      = (\<lambda>j. if j \<in> set (x # xs) then c else objectsDetailCulled s j)"
    by (auto simp: fun_eq_iff)
  have "fold (\<lambda>objectIdx. setObjectDetailCulled objectIdx c) (x # xs) s
      = fold (\<lambda>objectIdx. setObjectDetailCulled objectIdx c) xs ?s" by simp
  also have "\<dots> = ?s\<lparr>objectsDetailCulled := (\<lambda>j. if j \<in> set xs then c else objectsDetailCulled ?s j)\<rparr>"
    by (rule Cons.IH)
  also have "\<dots> = s\<lparr>objectsDetailCulled := (\<lambda>j. if j \<in> set xs then c else ((objectsDetailCulled s)(x := c)) j)\<rparr>"
    by (simp add: setObjectDetailCulled_def)
  also have "\<dots> = s\<lparr>objectsDetailCulled := (\<lambda>j. if j \<in> set (x # xs) then c else objectsDetailCulled s j)\<rparr>"
    by (simp only: e)
  finally show ?case .
qed

lemma built_buildCullObjects:
  assumes "typeMaps_set s"
  shows "builtCullSet (buildCullObjects s) = filter (lookup_culled_at s) [0 ..< numObjects s]"
proof -
  define f where "f = (\<lambda>j. if j \<in> set (take (cullSetLen s) (cullSet s)) then False else objectsViewCulled s j)"
  let ?s2 = "s\<lparr>objectsViewCulled := f, cullSetLen := 0\<rparr>"
  have tm: "typeMaps_set ?s2" using assms by simp
  have len: "cullSetLen ?s2 \<le> length (cullSet ?s2)" by simp
  have rf: "lookup_culled_at ?s2 = lookup_culled_at s" by simp
  have "builtCullSet (fold buildCullObjects_body [0 ..< numObjects s] ?s2) = filter (lookup_culled_at s) [0 ..< numObjects s]"
    using fold_body_built[OF tm len, of "[0 ..< numObjects s]"] rf by (simp add: builtCullSet_def)
  then show ?thesis
    by (simp add: buildCullObjects_def Let_def fold_setView f_def numObjects_def builtCullSet_def)
qed


lemma typeMaps_set_constructor: "typeMaps_set (constructor v c)"
  by (simp add: typeMaps_set_def constructor_def Let_def set_hideTypes_def set_dontHideTypes_def)

lemmas ex_defs = example_viewer_def example_objects_def example_metaObjects_def default_cfg_def
  constructor_def init_fields_def set_hidePBR_def set_hideSAO_def set_hideEdges_def
  set_hideSmallerThan_def set_hideMoreTrianglesThan_def set_hideTypes_def set_dontHideTypes_def
  typesMap_def Let_def

lemmas cull_defs = numObjects_def buildCullObjects_def buildCullObjects_body_def builtCullSet_def
  cullSet_push_def array_put_def truthy_def lookup_truthy_def ObjectPrototype_keys_def
  getAABB3Diag_def upt_rec setObjectViewCulled_def

section \<open>The cull set against the reference predicate\<close>


lemma lookup_inherited: "inherited_type s i \<Longrightarrow> \<not> lookup_culled_at s i"
  by (auto simp: lookup_culled_at_def reference_culled_def inherited_type_def Let_def
      split: option.splits)

lemma built_members:
  assumes "typeMaps_set s"
  shows "i \<in> set (builtCullSet (buildCullObjects s)) \<longleftrightarrow> i < numObjects s \<and> lookup_culled_at s i"
  using built_buildCullObjects[OF assms] by auto




section \<open>Thresholds given to the setters and to the constructor\<close>

lemma lookup_no_thresholds:
  "hideMoreTrianglesThan s = 0 \<Longrightarrow> hideSmallerThan s = 0 \<Longrightarrow>
   lookup_culled_at s = (\<lambda>i. culled_by_type s i \<and> \<not> inherited_type s i)"
  by (auto simp: lookup_culled_at_def reference_culled_def culled_by_type_def inherited_type_def
      fun_eq_iff Let_def split: option.splits)

lemma getAABB3Diag_nonneg: "0 \<le> getAABB3Diag b"
  by (simp add: getAABB3Diag_def)

lemma lookup_negative_size:
  "hideSmallerThan s < 0 \<Longrightarrow>
   lookup_culled_at s = (\<lambda>i. culled_by_type s i \<and> \<not> inherited_type s i)"
  using getAABB3Diag_nonneg
  by (auto simp: lookup_culled_at_def reference_culled_def culled_by_type_def inherited_type_def
      fun_eq_iff Let_def not_le[symmetric] split: option.splits dest: order_trans)

lemma lookup_negative_triangles:
  "hideMoreTrianglesThan s < 0 \<Longrightarrow> hideSmallerThan s = 0 \<Longrightarrow>
   lookup_culled_at s = (\<lambda>i. \<not> never_hidden s i \<and> \<not> inherited_type s i)"
  by (auto simp: lookup_culled_at_def reference_culled_def never_hidden_def inherited_type_def
      fun_eq_iff Let_def split: option.splits)

text \<open>
  C10. For every configuration object that omits \<open>hideSmallerThan\<close> and
  \<open>hideMoreTrianglesThan\<close>, the constructed plugin has both thresholds equal to 0: the
  initial field values 409 and 14 are overwritten by the setters the constructor calls. Such
  a plugin culls no object by size or triangle count: every object in its cull set is there
  by its type, which is on the always-hide list and not on the never-hide list; and an object
  whose type is not the name of an inherited property is in the cull set exactly when it is
  culled by its type.
\<close>

theorem constructor_default_thresholds:
  assumes "cfg_hideSmallerThan c = None" "cfg_hideMoreTrianglesThan c = None"
  shows "hideSmallerThan (init_fields v c) = 409 \<and> hideMoreTrianglesThan (init_fields v c) = 14
       \<and> hideSmallerThan (constructor v c) = 0 \<and> hideMoreTrianglesThan (constructor v c) = 0
       \<and> (\<forall>i \<in> set (builtCullSet (buildCullObjects (constructor v c))).
             i < numObjects (constructor v c) \<and> culled_by_type (constructor v c) i)
       \<and> (\<forall>i < numObjects (constructor v c). \<not> inherited_type (constructor v c) i \<longrightarrow>
             (i \<in> set (builtCullSet (buildCullObjects (constructor v c)))
                \<longleftrightarrow> culled_by_type (constructor v c) i))"
proof -
  have z: "hideSmallerThan (constructor v c) = 0" "hideMoreTrianglesThan (constructor v c) = 0"
    using assms
    by (simp_all add: constructor_def Let_def set_hideSmallerThan_def set_hideMoreTrianglesThan_def
        set_hideTypes_def set_dontHideTypes_def)
  have i: "hideSmallerThan (init_fields v c) = 409" "hideMoreTrianglesThan (init_fields v c) = 14"
    by (simp_all add: init_fields_def)
  have m: "j \<in> set (builtCullSet (buildCullObjects (constructor v c))) \<longleftrightarrow>
      j < numObjects (constructor v c) \<and> culled_by_type (constructor v c) j
        \<and> \<not> inherited_type (constructor v c) j" for j
    using built_members[OF typeMaps_set_constructor, of j v c] lookup_no_thresholds[OF z(2) z(1)]
    by simp
  show ?thesis
    using z i m by simp
qed

theorem constructor_default_thresholds_witness:
  "cfg_hideSmallerThan types_cfg = None \<and> cfg_hideMoreTrianglesThan types_cfg = None
   \<and> hideSmallerThan (constructor example_viewer types_cfg) = 0
   \<and> hideMoreTrianglesThan (constructor example_viewer types_cfg) = 0
   \<and> (1 :: nat) < numObjects (constructor example_viewer types_cfg)
   \<and> \<not> inherited_type (constructor example_viewer types_cfg) 1
   \<and> culled_by_type (constructor example_viewer types_cfg) 1
   \<and> 1 \<in> set (builtCullSet (buildCullObjects (constructor example_viewer types_cfg)))
   \<and> \<not> culled_by_type (constructor example_viewer types_cfg) 0
   \<and> 0 \<notin> set (builtCullSet (buildCullObjects (constructor example_viewer types_cfg)))"
proof -
  let ?s = "constructor example_viewer types_cfg"
  have h: "cfg_hideSmallerThan types_cfg = None" "cfg_hideMoreTrianglesThan types_cfg = None"
    by (simp_all add: types_cfg_def default_cfg_def)
  have e: "(1 :: nat) < numObjects ?s" "\<not> inherited_type ?s 1" "culled_by_type ?s 1"
    "\<not> culled_by_type ?s 0"
    by (simp_all add: culled_by_type_def inherited_type_def ObjectPrototype_keys_def numObjects_def
        types_cfg_def ex_defs)
  note t = constructor_default_thresholds[OF h, of example_viewer]
  have a: "1 \<in> set (builtCullSet (buildCullObjects ?s))"
    using t e(1,2,3) by blast
  have b: "0 \<notin> set (builtCullSet (buildCullObjects ?s))"
    using t e(4) by blast
  show ?thesis
    using t h e a b by simp
qed

text \<open>
  C4, as the claim states it, fails: a negative number is stored as it is and counts as an
  enabled threshold. With the triangle threshold set to \<open>-1\<close> the rebuild culls every object
  of the example scene where a disabled threshold culls none; with the triangle threshold 5
  and the size threshold set to \<open>-1\<close> the rebuild culls nothing where a disabled size
  threshold gives pure triangle-count culling of the objects 0 and 1.
\<close>

theorem negative_threshold_counterexample:
  "hideMoreTrianglesThan (set_hideMoreTrianglesThan (Some (- 1)) (constructor example_viewer default_cfg)) = - 1
   \<and> builtCullSet (buildCullObjects
        (set_hideMoreTrianglesThan (Some (- 1)) (constructor example_viewer default_cfg))) = [0, 1, 2]
   \<and> builtCullSet (buildCullObjects
        (set_hideMoreTrianglesThan (Some 0) (constructor example_viewer default_cfg))) = []
   \<and> builtCullSet (buildCullObjects
        (set_hideSmallerThan (Some (- 1))
           (constructor example_viewer (default_cfg\<lparr>cfg_hideMoreTrianglesThan := Some 5\<rparr>)))) = []
   \<and> builtCullSet (buildCullObjects
        (set_hideSmallerThan (Some 0)
           (constructor example_viewer (default_cfg\<lparr>cfg_hideMoreTrianglesThan := Some 5\<rparr>)))) = [0, 1]"
  by (simp add: ex_defs cull_defs)

text \<open>
  C4, amended. A negative number passed to either setter is neither rejected nor normalized:
  it is stored unchanged and counts as an enabled threshold (only 0, undefined and null
  disable one). In the rebuild that follows, for the objects whose type is not the name of a
  property that every plain JavaScript object inherits: with a negative size threshold no
  object passes the size comparison, so exactly the objects culled by their type are in the
  set; with a negative triangle threshold and the size threshold disabled every object passes
  the triangle comparison, so exactly the objects whose type is not on the never-hide list
  are in the set.
\<close>

theorem negative_threshold_kept:
  assumes "v < 0"
  shows "hideSmallerThan (set_hideSmallerThan (Some v) s) = v
       \<and> hideMoreTrianglesThan (set_hideMoreTrianglesThan (Some v) s) = v
       \<and> (typeMaps_set s \<longrightarrow>
            (\<forall>i < numObjects s. \<not> inherited_type s i \<longrightarrow>
               (i \<in> set (builtCullSet (buildCullObjects (set_hideSmallerThan (Some v) s)))
                  \<longleftrightarrow> culled_by_type s i)))
       \<and> (typeMaps_set s \<and> hideSmallerThan s = 0 \<longrightarrow>
            (\<forall>i < numObjects s. \<not> inherited_type s i \<longrightarrow>
               (i \<in> set (builtCullSet (buildCullObjects (set_hideMoreTrianglesThan (Some v) s)))
                  \<longleftrightarrow> \<not> never_hidden s i)))"
proof -
  let ?a = "set_hideSmallerThan (Some v) s" and ?b = "set_hideMoreTrianglesThan (Some v) s"
  have a: "hideSmallerThan ?a = v" "typeMaps_set ?a = typeMaps_set s" "numObjects ?a = numObjects s"
          "culled_by_type ?a = culled_by_type s" "inherited_type ?a = inherited_type s"
    by (simp_all add: set_hideSmallerThan_def typeMaps_set_def numObjects_def culled_by_type_def
        inherited_type_def fun_eq_iff split: option.splits)
  have b: "hideMoreTrianglesThan ?b = v" "typeMaps_set ?b = typeMaps_set s" "numObjects ?b = numObjects s"
          "never_hidden ?b = never_hidden s" "hideSmallerThan ?b = hideSmallerThan s"
          "inherited_type ?b = inherited_type s"
    by (simp_all add: set_hideMoreTrianglesThan_def typeMaps_set_def numObjects_def never_hidden_def
        inherited_type_def fun_eq_iff split: option.splits)
  have "i \<in> set (builtCullSet (buildCullObjects ?a)) \<longleftrightarrow> culled_by_type s i"
    if "typeMaps_set s" "i < numObjects s" "\<not> inherited_type s i" for i
    using built_members[of ?a i] lookup_negative_size[of ?a] that assms a by simp
  moreover have "i \<in> set (builtCullSet (buildCullObjects ?b)) \<longleftrightarrow> \<not> never_hidden s i"
    if "typeMaps_set s" "hideSmallerThan s = 0" "i < numObjects s" "\<not> inherited_type s i" for i
    using built_members[of ?b i] lookup_negative_triangles[of ?b] that assms b by simp
  ultimately show ?thesis using a(1) b(1) by blast
qed

theorem negative_threshold_kept_witness:
  "(- 1 :: real) < 0
   \<and> typeMaps_set (constructor example_viewer default_cfg)
   \<and> hideSmallerThan (constructor example_viewer default_cfg) = 0
   \<and> (0 :: nat) < numObjects (constructor example_viewer default_cfg)
   \<and> \<not> inherited_type (constructor example_viewer default_cfg) 0
   \<and> hideSmallerThan (set_hideSmallerThan (Some (- 1)) (constructor example_viewer default_cfg)) = - 1
   \<and> \<not> culled_by_type (constructor example_viewer default_cfg) 0
   \<and> 0 \<notin> set (builtCullSet (buildCullObjects
        (set_hideSmallerThan (Some (- 1)) (constructor example_viewer default_cfg))))
   \<and> \<not> never_hidden (constructor example_viewer default_cfg) 0
   \<and> 0 \<in> set (builtCullSet (buildCullObjects
        (set_hideMoreTrianglesThan (Some (- 1)) (constructor example_viewer default_cfg))))"
proof -
  let ?s = "constructor example_viewer default_cfg"
  have n: "(- 1 :: real) < 0" by simp
  have tm: "typeMaps_set ?s"
    by (rule typeMaps_set_constructor)
  have z: "hideSmallerThan ?s = 0" "(0 :: nat) < numObjects ?s" "\<not> inherited_type ?s 0"
    "\<not> culled_by_type ?s 0" "\<not> never_hidden ?s 0"
    by (simp_all add: culled_by_type_def never_hidden_def inherited_type_def ObjectPrototype_keys_def
        numObjects_def ex_defs)
  note t = negative_threshold_kept[OF n, of ?s]
  have a: "0 \<notin> set (builtCullSet (buildCullObjects (set_hideSmallerThan (Some (- 1)) ?s)))"
    using t tm z(2,3,4) by blast
  have b: "0 \<in> set (builtCullSet (buildCullObjects (set_hideMoreTrianglesThan (Some (- 1)) ?s)))"
    using t tm z(1,2,3,5) by blast
  have c: "hideSmallerThan (set_hideSmallerThan (Some (- 1)) ?s) = - 1"
    using t by blast
  show ?thesis
    using n tm z a b c by simp
qed

section \<open>Lemmas about boxes and KD-tree insertion\<close>

lemma box_subset_points: "box_subset inner outer \<longleftrightarrow> aabb_points inner \<subseteq> aabb_points outer"
proof
  assume "box_subset inner outer"
  then show "aabb_points inner \<subseteq> aabb_points outer"
    by (auto simp: box_subset_def aabb_empty_def containsAABB3_def aabb_points_def)
next
  assume sub: "aabb_points inner \<subseteq> aabb_points outer"
  show "box_subset inner outer"
  proof (cases "aabb_empty inner")
    case True then show ?thesis by (simp add: box_subset_def)
  next
    case False
    then have "(a0 inner, a1 inner, a2 inner) \<in> aabb_points inner" "(a3 inner, a4 inner, a5 inner) \<in> aabb_points inner"
      by (auto simp: aabb_points_def aabb_empty_def)
    then have "(a0 inner, a1 inner, a2 inner) \<in> aabb_points outer" "(a3 inner, a4 inner, a5 inner) \<in> aabb_points outer"
      using sub by blast+
    then show ?thesis by (auto simp: box_subset_def containsAABB3_def aabb_points_def)
  qed
qed

lemma box_subset_trans: "box_subset a b \<Longrightarrow> box_subset b c \<Longrightarrow> box_subset a c"
  unfolding box_subset_points by blast

lemma box_subset_refl: "box_subset a a"
  unfolding box_subset_points by blast

lemma contains_box_subset: "containsAABB3 outer inner \<Longrightarrow> box_subset inner outer"
  by (simp add: box_subset_def)

lemma expand_contains: "containsAABB3 (expandAABB3 b e) b" "containsAABB3 (expandAABB3 b e) e"
  by (simp_all add: containsAABB3_def expandAABB3_def)

lemma expand_id: "containsAABB3 b e \<Longrightarrow> expandAABB3 b e = b"
  by (cases b) (auto simp: containsAABB3_def expandAABB3_def min_def max_def)

lemma contains_refl: "containsAABB3 b b"
  by (simp add: containsAABB3_def)

lemma splitDim_lt3: "splitDim f32 b < 3"
  by (simp add: splitDim_def Let_def)

lemma aabbLeft_subset: "axis < 3 \<Longrightarrow> box_subset (aabbLeft b axis) b"
  by (cases "axis = 0"; cases "axis = 1"; cases "axis = 2")
     (auto simp: box_subset_def aabb_empty_def containsAABB3_def aabbLeft_def aabb_put_def aabb_at_def)

lemma aabbRight_subset: "axis < 3 \<Longrightarrow> box_subset (aabbRight b axis) b"
  by (cases "axis = 0"; cases "axis = 1"; cases "axis = 2")
     (auto simp: box_subset_def aabb_empty_def containsAABB3_def aabbRight_def aabb_put_def aabb_at_def)


lemma sel_set_left [simp]:
  "node_aabb (set_left n c) = node_aabb n" "left (set_left n c) = Some c"
  "right (set_left n c) = right n" "node_objects (set_left n c) = node_objects n"
  "node_intersection (set_left n c) = node_intersection n"
  by (simp_all add: set_left_def)

lemma sel_set_right [simp]:
  "node_aabb (set_right n c) = node_aabb n" "left (set_right n c) = left n"
  "right (set_right n c) = Some c" "node_objects (set_right n c) = node_objects n"
  "node_intersection (set_right n c) = node_intersection n"
  by (simp_all add: set_right_def)

lemma sel_kd_store [simp]:
  "node_aabb (kd_store n e idx) = expandAABB3 (node_aabb n) e" "left (kd_store n e idx) = left n"
  "right (kd_store n e idx) = right n"
  "node_objects (kd_store n e idx) = Some ((case node_objects n of Some xs \<Rightarrow> xs | None \<Rightarrow> []) @ [idx])"
  by (simp_all add: kd_store_def)

lemma sel_new_node [simp]:
  "node_aabb (new_node b) = b" "left (new_node b) = None" "right (new_node b) = None"
  "node_objects (new_node b) = None"
  by (simp_all add: new_node_def)

lemma sel_with_left [simp]:
  "node_aabb (with_left f32 n) = node_aabb n" "right (with_left f32 n) = right n"
  "node_objects (with_left f32 n) = node_objects n"
  by (simp_all add: with_left_def)

lemma sel_with_right [simp]:
  "node_aabb (with_right f32 n) = node_aabb n" "left (with_right f32 n) = left n"
  "node_objects (with_right f32 n) = node_objects n"
  by (simp_all add: with_right_def)

lemma containing_child_Some:
  "containing_child c e = Some l \<longleftrightarrow> c = Some l \<and> containsAABB3 (node_aabb l) e"
  by (auto simp: containing_child_def split: option.splits)

lemma insert_cases [case_names store left right newLeft newRight storeNew]:
  fixes md f32 n e idx d
  defines "r \<equiv> insertEntityIntoKDTree md f32 n e idx d"
  defines "nl \<equiv> new_node (aabbLeft (node_aabb n) (splitDim f32 (node_aabb n)))"
  defines "nr \<equiv> new_node (aabbRight (node_aabb n) (splitDim f32 (node_aabb n)))"
  obtains
    (store) "md \<le> d" "r = kd_store n e idx"
  | (left) l where "\<not> md \<le> d" "left n = Some l" "containsAABB3 (node_aabb l) e"
      "r = set_left n (insertEntityIntoKDTree md f32 l e idx (d + 1))"
  | (right) c where "\<not> md \<le> d" "right n = Some c" "containsAABB3 (node_aabb c) e"
      "r = set_right n (insertEntityIntoKDTree md f32 c e idx (d + 1))"
  | (newLeft) "\<not> md \<le> d" "left n = None" "containsAABB3 (node_aabb nl) e"
      "r = set_left n (insertEntityIntoKDTree md f32 nl e idx (d + 1))"
  | (newRight) "\<not> md \<le> d" "right n = None" "containsAABB3 (node_aabb nr) e"
      "r = set_right (with_left f32 n) (insertEntityIntoKDTree md f32 nr e idx (d + 1))"
  | (storeNew) "\<not> md \<le> d" "r = kd_store (with_right f32 (with_left f32 n)) e idx"
proof (cases "md \<le> d")
  case True
  then have "r = kd_store n e idx" by (simp add: r_def insertEntityIntoKDTree.simps[of md f32 n e idx d])
  then show ?thesis using True store by auto
next
  case nd: False
  show ?thesis
  proof (cases "containing_child (left n) e")
    case (Some l)
    then have "r = set_left n (insertEntityIntoKDTree md f32 l e idx (d + 1))"
      using nd by (simp add: r_def insertEntityIntoKDTree.simps[of md f32 n e idx d])
    then show ?thesis using nd Some left by (auto simp: containing_child_Some)
  next
    case ln: None
    show ?thesis
    proof (cases "containing_child (right n) e")
      case (Some c)
      then have "r = set_right n (insertEntityIntoKDTree md f32 c e idx (d + 1))"
        using nd ln by (simp add: r_def insertEntityIntoKDTree.simps[of md f32 n e idx d])
      then show ?thesis using nd Some right by (auto simp: containing_child_Some)
    next
      case rn: None
      show ?thesis
      proof (cases "left n = None \<and> containsAABB3 (node_aabb nl) e")
        case True
        then have "r = set_left n (insertEntityIntoKDTree md f32 nl e idx (d + 1))"
          using nd ln rn by (simp add: r_def nl_def insertEntityIntoKDTree.simps[of md f32 n e idx d] Let_def)
        then show ?thesis using nd True newLeft by auto
      next
        case lf: False
        show ?thesis
        proof (cases "right n = None \<and> containsAABB3 (node_aabb nr) e")
          case True
          then have "r = set_right (with_left f32 n) (insertEntityIntoKDTree md f32 nr e idx (d + 1))"
            using nd ln rn lf
            by (auto simp add: r_def nl_def nr_def with_left_def
                insertEntityIntoKDTree.simps[of md f32 n e idx d] Let_def)
          then show ?thesis using nd True newRight by auto
        next
          case False
          then have "r = kd_store (with_right f32 (with_left f32 n)) e idx"
            using nd ln rn lf
            by (auto simp add: r_def nl_def nr_def with_left_def with_right_def
                insertEntityIntoKDTree.simps[of md f32 n e idx d] Let_def)
          then show ?thesis using nd storeNew by auto
        qed
      qed
    qed
  qed
qed

lemma kd_inv_sel:
  "kd_inv box n \<longleftrightarrow>
     list_all (\<lambda>idx. box_subset (box idx) (node_aabb n)) (case node_objects n of Some xs \<Rightarrow> xs | None \<Rightarrow> [])
     \<and> (case left n of Some c \<Rightarrow> box_subset (node_aabb c) (node_aabb n) \<and> kd_inv box c | None \<Rightarrow> True)
     \<and> (case right n of Some c \<Rightarrow> box_subset (node_aabb c) (node_aabb n) \<and> kd_inv box c | None \<Rightarrow> True)"
  by (cases n) (simp split: option.splits)

lemma kd_inv_new_node: "kd_inv box (new_node b)"
  by (simp add: new_node_def)

lemma kd_inv_set_left:
  "kd_inv box n \<Longrightarrow> kd_inv box c \<Longrightarrow> box_subset (node_aabb c) (node_aabb n) \<Longrightarrow> kd_inv box (set_left n c)"
  by (simp add: kd_inv_sel[of box "set_left n c"] kd_inv_sel[of box n] split: option.splits)

lemma kd_inv_set_right:
  "kd_inv box n \<Longrightarrow> kd_inv box c \<Longrightarrow> box_subset (node_aabb c) (node_aabb n) \<Longrightarrow> kd_inv box (set_right n c)"
  by (simp add: kd_inv_sel[of box "set_right n c"] kd_inv_sel[of box n] split: option.splits)

lemma kd_inv_with_left: "kd_inv box n \<Longrightarrow> kd_inv box (with_left f32 n)"
  by (simp add: with_left_def kd_inv_set_left kd_inv_new_node aabbLeft_subset splitDim_lt3)

lemma kd_inv_with_right: "kd_inv box n \<Longrightarrow> kd_inv box (with_right f32 n)"
  by (simp add: with_right_def kd_inv_set_right kd_inv_new_node aabbRight_subset splitDim_lt3)

lemma box_subset_expand: "box_subset a b \<Longrightarrow> box_subset a (expandAABB3 b e)"
  using box_subset_trans contains_box_subset expand_contains(1) by blast

lemma kd_inv_store:
  assumes "kd_inv box n" "box idx = e"
  shows "kd_inv box (kd_store n e idx)"
proof -
  have "box_subset (box idx) (expandAABB3 (node_aabb n) e)"
    using assms(2) contains_box_subset expand_contains(2) by blast
  then show ?thesis
    using assms(1)
    by (auto simp: kd_inv_sel[of box "kd_store n e idx"] kd_inv_sel[of box n] list_all_iff
        box_subset_expand split: option.splits)
qed

lemma aabb_insert:
  "node_aabb (insertEntityIntoKDTree md f32 n e idx d) = node_aabb n
   \<or> node_aabb (insertEntityIntoKDTree md f32 n e idx d) = expandAABB3 (node_aabb n) e"
  by (cases rule: insert_cases[of md d f32 n e idx]) simp_all

lemma aabb_insert_contained:
  "containsAABB3 (node_aabb n) e \<Longrightarrow> node_aabb (insertEntityIntoKDTree md f32 n e idx d) = node_aabb n"
  using aabb_insert[of md f32 n e idx d] by (auto simp: expand_id)

lemma kd_inv_insert:
  "kd_inv box n \<Longrightarrow> box idx = e \<Longrightarrow> kd_inv box (insertEntityIntoKDTree md f32 n e idx d)"
proof (induction "md - d" arbitrary: n d)
  case 0
  then have "md \<le> d" by simp
  then show ?case
    using 0 by (simp add: insertEntityIntoKDTree.simps[of md f32 n e idx d] kd_inv_store)
next
  case (Suc k)
  have k: "k = md - (d + 1)" using Suc.hyps(2) by simp
  note IH = Suc.hyps(1)[OF k _ Suc.prems(2)]
  show ?case
  proof (cases rule: insert_cases[of md d f32 n e idx])
    case store
    then show ?thesis using Suc.prems by (simp add: kd_inv_store)
  next
    case (left l)
    have l: "kd_inv box l" "box_subset (node_aabb l) (node_aabb n)"
      using Suc.prems(1) left(2) by (simp_all add: kd_inv_sel[of box n])
    show ?thesis
      using left(4) kd_inv_set_left[OF Suc.prems(1) IH[OF l(1)]] l(2) aabb_insert_contained[OF left(3)]
      by simp
  next
    case (right c)
    have c: "kd_inv box c" "box_subset (node_aabb c) (node_aabb n)"
      using Suc.prems(1) right(2) by (simp_all add: kd_inv_sel[of box n])
    show ?thesis
      using right(4) kd_inv_set_right[OF Suc.prems(1) IH[OF c(1)]] c(2) aabb_insert_contained[OF right(3)]
      by simp
  next
    case newLeft
    let ?nl = "new_node (aabbLeft (node_aabb n) (splitDim f32 (node_aabb n)))"
    have "box_subset (node_aabb ?nl) (node_aabb n)" by (simp add: aabbLeft_subset splitDim_lt3)
    then show ?thesis
      using newLeft(4) kd_inv_set_left[OF Suc.prems(1) IH[OF kd_inv_new_node[of box]]]
        aabb_insert_contained[OF newLeft(3)]
      by simp
  next
    case newRight
    let ?nr = "new_node (aabbRight (node_aabb n) (splitDim f32 (node_aabb n)))"
    have "box_subset (node_aabb ?nr) (node_aabb (with_left f32 n))" by (simp add: aabbRight_subset splitDim_lt3)
    then show ?thesis
      using newRight(4) kd_inv_set_right[OF kd_inv_with_left[OF Suc.prems(1)] IH[OF kd_inv_new_node[of box]]]
        aabb_insert_contained[OF newRight(3)]
      by simp
  next
    case storeNew
    then show ?thesis
      using Suc.prems by (simp add: kd_inv_store kd_inv_with_left kd_inv_with_right)
  qed
qed

lemma kd_inv_subtree:
  "kd_inv box n \<Longrightarrow> idx \<in> set (subtree_objects n) \<Longrightarrow> box_subset (box idx) (node_aabb n)"
proof (induction n)
  case (KDNode b i l r os)
  then show ?case
    by (auto simp: list_all_iff split: option.splits intro: box_subset_trans)
qed

lemma kd_inv_contained: "kd_inv box n \<Longrightarrow> kd_contained box n"
proof (induction n)
  case (KDNode b i l r os)
  have "list_all (\<lambda>idx. box_subset (box idx) b) (subtree_objects (KDNode b i l r os))"
    using kd_inv_subtree[OF KDNode.prems] by (simp add: list_all_iff del: subtree_objects.simps)
  then show ?case using KDNode by (auto split: option.splits)
qed

lemma left_with_left: "left (with_left f32 n) = (case left n of Some l \<Rightarrow> Some l
    | None \<Rightarrow> Some (new_node (aabbLeft (node_aabb n) (splitDim f32 (node_aabb n)))))"
  by (simp add: with_left_def split: option.splits)

lemma right_with_right: "right (with_right f32 n) = (case right n of Some l \<Rightarrow> Some l
    | None \<Rightarrow> Some (new_node (aabbRight (node_aabb n) (splitDim f32 (node_aabb n)))))"
  by (simp add: with_right_def split: option.splits)

lemma kd_grows_sel:
  "kd_grows n n' \<longleftrightarrow> containsAABB3 (node_aabb n') (node_aabb n)
     \<and> (case left n of Some c \<Rightarrow> (case left n' of Some c' \<Rightarrow> kd_grows c c' | None \<Rightarrow> False) | None \<Rightarrow> True)
     \<and> (case right n of Some c \<Rightarrow> (case right n' of Some c' \<Rightarrow> kd_grows c c' | None \<Rightarrow> False) | None \<Rightarrow> True)"
  by (cases n; cases n') (simp split: option.splits)

lemma kd_grows_refl: "kd_grows n n"
  by (induction n) (auto simp: contains_refl split: option.splits)

lemma kd_grows_store: "kd_grows n (kd_store n e idx)"
  by (simp add: kd_grows_sel[of n "kd_store n e idx"] expand_contains kd_grows_refl split: option.splits)

lemma kd_grows_storeNew: "kd_grows n (kd_store (with_right f32 (with_left f32 n)) e idx)"
  by (simp add: kd_grows_sel[of n "kd_store (with_right f32 (with_left f32 n)) e idx"] expand_contains
      kd_grows_refl left_with_left right_with_right split: option.splits)

lemma kd_grows_insert: "kd_grows n (insertEntityIntoKDTree md f32 n e idx d)"
proof (induction "md - d" arbitrary: n d)
  case 0
  then have "md \<le> d" by simp
  then show ?case
    by (simp add: insertEntityIntoKDTree.simps[of md f32 n e idx d] kd_grows_store)
next
  case (Suc k)
  have k: "k = md - (d + 1)" using Suc.hyps(2) by simp
  note IH = Suc.hyps(1)[OF k]
  show ?case
  proof (cases rule: insert_cases[of md d f32 n e idx])
    case store
    then show ?thesis by (simp add: kd_grows_store)
  next
    case (left l)
    show ?thesis
      using left(2) IH[of l]
      by (simp add: left(4) kd_grows_sel[of n "set_left n _"] contains_refl kd_grows_refl split: option.splits)
  next
    case (right c)
    show ?thesis
      using right(2) IH[of c]
      by (simp add: right(4) kd_grows_sel[of n "set_right n _"] contains_refl kd_grows_refl split: option.splits)
  next
    case newLeft
    show ?thesis
      using newLeft(2)
      by (simp add: newLeft(4) kd_grows_sel[of n "set_left n _"] contains_refl kd_grows_refl split: option.splits)
  next
    case newRight
    show ?thesis
      using newRight(2)
      by (simp add: newRight(4) kd_grows_sel[of n "set_right _ _"] contains_refl kd_grows_refl
          left_with_left split: option.splits)
  next
    case storeNew
    then show ?thesis by (simp add: kd_grows_storeNew)
  qed
qed

lemma depths_bound:
  "d \<le> md \<Longrightarrow> x \<in> set (insertEntityIntoKDTree_depths md f32 n e idx d) \<Longrightarrow> d \<le> x \<and> x \<le> md"
proof (induction "md - d" arbitrary: n d)
  case 0
  then have "md = d" by simp
  then show ?case using 0(3) by (simp add: insertEntityIntoKDTree_depths.simps[of d f32 n e idx d])
next
  case (Suc k)
  have k: "k = md - (d + 1)" "d + 1 \<le> md" using Suc.hyps(2) by simp_all
  have IH: "x \<in> set (insertEntityIntoKDTree_depths md f32 c e idx (d + 1)) \<Longrightarrow> d \<le> x \<and> x \<le> md" for c
    using Suc.hyps(1)[OF k(1) k(2), of c] by simp
  show ?case
    using Suc.prems IH
    by (auto simp: insertEntityIntoKDTree_depths.simps[of md f32 n e idx d] Let_def
        split: option.splits if_splits)
qed

lemma depths_at_max:
  "md \<le> d \<Longrightarrow> insertEntityIntoKDTree_depths md f32 n e idx d = [d]
     \<and> insertEntityIntoKDTree md f32 n e idx d = kd_store n e idx"
  by (simp add: insertEntityIntoKDTree_depths.simps[of md f32 n e idx d]
      insertEntityIntoKDTree.simps[of md f32 n e idx d])

lemma kd_height_sel:
  "kd_height n = 1 + max (case left n of Some c \<Rightarrow> kd_height c | None \<Rightarrow> 0)
                         (case right n of Some c \<Rightarrow> kd_height c | None \<Rightarrow> 0)"
  by (cases n) simp

lemma kd_height_new_node [simp]: "kd_height (new_node b) = 1"
  by (simp add: new_node_def)

lemma kd_height_store [simp]: "kd_height (kd_store n e idx) = kd_height n"
  by (simp add: kd_height_sel[of "kd_store n e idx"] kd_height_sel[of n])

lemma kd_height_insert:
  "kd_height n + d \<le> md + 1 \<Longrightarrow> kd_height (insertEntityIntoKDTree md f32 n e idx d) + d \<le> md + 1"
proof (induction "md - d" arbitrary: n d)
  case 0
  then have "md \<le> d" by simp
  then show ?case
    using 0 by (simp add: insertEntityIntoKDTree.simps[of md f32 n e idx d])
next
  case (Suc k)
  have k: "k = md - (d + 1)" "d + 1 \<le> md" using Suc.hyps(2) by simp_all
  have IH: "kd_height c + (d + 1) \<le> md + 1 \<Longrightarrow>
     kd_height (insertEntityIntoKDTree md f32 c e idx (d + 1)) + (d + 1) \<le> md + 1" for c
    using Suc.hyps(1)[OF k(1), of c] by simp
  have hn: "kd_height n + d \<le> md + 1" by (rule Suc.prems)
  show ?case
  proof (cases rule: insert_cases[of md d f32 n e idx])
    case store
    then show ?thesis using hn by simp
  next
    case (left l)
    have "kd_height l + (d + 1) \<le> md + 1" using hn left(2) by (simp add: kd_height_sel[of n])
    from IH[OF this] show ?thesis
      using hn by (simp add: left(4) kd_height_sel[of "set_left n _"] kd_height_sel[of n] split: option.splits)
  next
    case (right c)
    have "kd_height c + (d + 1) \<le> md + 1" using hn right(2) by (simp add: kd_height_sel[of n])
    from IH[OF this] show ?thesis
      using hn by (simp add: right(4) kd_height_sel[of "set_right n _"] kd_height_sel[of n] split: option.splits)
  next
    case newLeft
    have "kd_height (new_node (aabbLeft (node_aabb n) (splitDim f32 (node_aabb n)))) + (d + 1) \<le> md + 1"
      using k(2) by simp
    from IH[OF this] show ?thesis
      using hn by (simp add: newLeft(4) kd_height_sel[of "set_left n _"] kd_height_sel[of n] split: option.splits)
  next
    case newRight
    have "kd_height (new_node (aabbRight (node_aabb n) (splitDim f32 (node_aabb n)))) + (d + 1) \<le> md + 1"
      using k(2) by simp
    from IH[OF this] show ?thesis
      using hn k(2) by (simp add: newRight(4) kd_height_sel[of "set_right _ _"] kd_height_sel[of n]
          left_with_left split: option.splits)
  next
    case storeNew
    then show ?thesis
      using hn k(2) by (simp add: kd_height_sel[of "with_right _ _"] kd_height_sel[of n]
          left_with_left right_with_right split: option.splits)
  qed
qed

lemma fold_insert_inv:
  "kd_inv (objectAABB s) t0 \<Longrightarrow>
   kd_inv (objectAABB s) (fold (\<lambda>objectIdx kdRoot.
       insertEntityIntoKDTree md f32 kdRoot (entity_aabb (objects s ! objectIdx)) objectIdx d) idxs t0)"
proof (induction idxs arbitrary: t0)
  case Nil
  then show ?case by simp
next
  case (Cons i idxs)
  have "kd_inv (objectAABB s) (insertEntityIntoKDTree md f32 t0 (entity_aabb (objects s ! i)) i d)"
    using Cons.prems by (rule kd_inv_insert) (simp add: objectAABB_def)
  then show ?case using Cons.IH by simp
qed

lemma fold_insert_height:
  "kd_height t0 + d \<le> md + 1 \<Longrightarrow>
   kd_height (fold (\<lambda>objectIdx kdRoot.
       insertEntityIntoKDTree md f32 kdRoot (entity_aabb (objects s ! objectIdx)) objectIdx d) idxs t0) + d \<le> md + 1"
proof (induction idxs arbitrary: t0)
  case Nil
  then show ?case by simp
next
  case (Cons i idxs)
  show ?case using Cons.IH[OF kd_height_insert[OF Cons.prems]] by simp
qed

lemma build_inv: "kd_inv (objectAABB s) (buildKDTree_root f32 s idxs)"
  unfolding buildKDTree_root_def Let_def
  by (rule fold_insert_inv) (rule kd_inv_new_node)

lemma build_height:
  "1 \<le> maxTreeDepth s \<Longrightarrow> kd_height (buildKDTree_root f32 s idxs) \<le> maxTreeDepth s"
  unfolding buildKDTree_root_def Let_def
  using fold_insert_height[of "new_node (scene_aabb s)" "0 + 1" "maxTreeDepth s" f32 s idxs]
  by simp

lemmas kd_eval = insertEntityIntoKDTree.simps containing_child_def splitDim_def aabbLeft_def aabbRight_def
  aabb_put_def aabb_at_def new_node_def set_left_def set_right_def kd_store_def containsAABB3_def
  expandAABB3_def Let_def buildKDTree_root_def

lemma example_tree_eval:
  "subtree_objects example_tree = [0, 1, 2] \<and> kd_height example_tree = 8"
  unfolding example_tree_def
  by (simp add: kd_eval ex_defs MAX_KD_TREE_DEPTH_def)

section \<open>Depth bound and containment of the KD-tree\<close>

text \<open>
  C7. Insertion with the configured maximum depth never proceeds past that depth. A call of
  \<open>_insertEntityIntoKDTree\<close> at a depth at or beyond the maximum makes no further call: it
  returns the node with the object index appended to its overflow list (a fresh list if the
  node had none), with its bound expanded to cover the object's box, and with its children as
  they were. A call entered at or below the maximum only ever reaches depths between its own
  and the maximum. The constructor sets the maximum to 8, and the tree \<open>_buildKDTree\<close>
  builds, entering every insertion at depth 1, never has more than 8 levels. The insertion is
  a total function: it returns for every tree, object and depth.
\<close>

theorem insertion_depth_bounded:
  "(md \<le> d \<longrightarrow>
      insertEntityIntoKDTree md f32 n e idx d = kd_store n e idx
      \<and> insertEntityIntoKDTree_depths md f32 n e idx d = [d]
      \<and> node_objects (insertEntityIntoKDTree md f32 n e idx d)
          = Some ((case node_objects n of Some xs \<Rightarrow> xs | None \<Rightarrow> []) @ [idx])
      \<and> node_aabb (insertEntityIntoKDTree md f32 n e idx d)
          = \<lparr>a0 = min (a0 (node_aabb n)) (a0 e), a1 = min (a1 (node_aabb n)) (a1 e),
             a2 = min (a2 (node_aabb n)) (a2 e), a3 = max (a3 (node_aabb n)) (a3 e),
             a4 = max (a4 (node_aabb n)) (a4 e), a5 = max (a5 (node_aabb n)) (a5 e)\<rparr>
      \<and> containsAABB3 (node_aabb (insertEntityIntoKDTree md f32 n e idx d)) e
      \<and> containsAABB3 (node_aabb (insertEntityIntoKDTree md f32 n e idx d)) (node_aabb n)
      \<and> left (insertEntityIntoKDTree md f32 n e idx d) = left n
      \<and> right (insertEntityIntoKDTree md f32 n e idx d) = right n
      \<and> node_intersection (insertEntityIntoKDTree md f32 n e idx d) = node_intersection n)
   \<and> (d \<le> md \<longrightarrow> (\<forall>x \<in> set (insertEntityIntoKDTree_depths md f32 n e idx d). d \<le> x \<and> x \<le> md))
   \<and> maxTreeDepth (constructor v c) = 8
   \<and> (maxTreeDepth s = 8 \<longrightarrow> kd_height (buildKDTree_root f32 s idxs) \<le> 8)"
proof -
  have "maxTreeDepth (constructor v c) = 8"
    by (simp add: ex_defs MAX_KD_TREE_DEPTH_def)
  moreover have "kd_height (buildKDTree_root f32 s idxs) \<le> 8" if "maxTreeDepth s = 8"
    using build_height[of s f32 idxs] that by simp
  moreover have "node_objects (insertEntityIntoKDTree md f32 n e idx d)
          = Some ((case node_objects n of Some xs \<Rightarrow> xs | None \<Rightarrow> []) @ [idx])
      \<and> node_aabb (insertEntityIntoKDTree md f32 n e idx d)
          = \<lparr>a0 = min (a0 (node_aabb n)) (a0 e), a1 = min (a1 (node_aabb n)) (a1 e),
             a2 = min (a2 (node_aabb n)) (a2 e), a3 = max (a3 (node_aabb n)) (a3 e),
             a4 = max (a4 (node_aabb n)) (a4 e), a5 = max (a5 (node_aabb n)) (a5 e)\<rparr>
      \<and> containsAABB3 (node_aabb (insertEntityIntoKDTree md f32 n e idx d)) e
      \<and> containsAABB3 (node_aabb (insertEntityIntoKDTree md f32 n e idx d)) (node_aabb n)
      \<and> left (insertEntityIntoKDTree md f32 n e idx d) = left n
      \<and> right (insertEntityIntoKDTree md f32 n e idx d) = right n
      \<and> node_intersection (insertEntityIntoKDTree md f32 n e idx d) = node_intersection n"
    if "md \<le> d"
    using depths_at_max[OF that, of f32 n e idx]
    by (simp add: kd_store_def expandAABB3_def containsAABB3_def)
  ultimately show ?thesis
    using depths_at_max[of md d f32 n e idx] depths_bound[of d md _ f32 n e idx] by blast
qed

theorem insertion_depth_bounded_witness:
  "(8 :: nat) \<le> 8
   \<and> insertEntityIntoKDTree 8 (\<lambda>x. x) example_tree (objectAABB (constructor example_viewer default_cfg) 2) 2 8
       = kd_store example_tree (objectAABB (constructor example_viewer default_cfg) 2) 2
   \<and> insertEntityIntoKDTree_depths 8 (\<lambda>x. x) example_tree
         (objectAABB (constructor example_viewer default_cfg) 2) 2 8 = [8]
   \<and> node_objects example_tree = Some [0]
   \<and> node_objects (insertEntityIntoKDTree 8 (\<lambda>x. x) example_tree
         (objectAABB (constructor example_viewer default_cfg) 2) 2 8) = Some [0, 2]
   \<and> node_aabb (insertEntityIntoKDTree 8 (\<lambda>x. x) example_tree
         (objectAABB (constructor example_viewer default_cfg) 2) 2 8)
       = \<lparr>a0 = 0, a1 = 0, a2 = 0, a3 = 4, a4 = 4, a5 = 4\<rparr>
   \<and> (1 :: nat) \<le> 8
   \<and> insertEntityIntoKDTree_depths 8 (\<lambda>x. x) example_tree
         (objectAABB (constructor example_viewer default_cfg) 2) 2 1 = [1, 2, 3, 4, 5, 6, 7, 8]
   \<and> maxTreeDepth (constructor example_viewer default_cfg) = 8
   \<and> kd_height example_tree \<le> 8"
proof -
  have ev: "insertEntityIntoKDTree_depths 8 (\<lambda>x. x) example_tree
         (objectAABB (constructor example_viewer default_cfg) 2) 2 1 = [1, 2, 3, 4, 5, 6, 7, 8]"
    unfolding example_tree_def objectAABB_def
    by (simp add: kd_eval insertEntityIntoKDTree_depths.simps ex_defs MAX_KD_TREE_DEPTH_def)
  have ex: "node_objects example_tree = Some [0]"
    "node_aabb example_tree = \<lparr>a0 = 0, a1 = 0, a2 = 0, a3 = 4, a4 = 4, a5 = 4\<rparr>"
    "objectAABB (constructor example_viewer default_cfg) 2 = \<lparr>a0 = 1, a1 = 1, a2 = 1, a3 = 1, a4 = 1, a5 = 1\<rparr>"
    unfolding example_tree_def objectAABB_def
    by (simp_all add: kd_eval ex_defs MAX_KD_TREE_DEPTH_def)
  note t = insertion_depth_bounded[of 8 8 "\<lambda>x. x" example_tree
        "objectAABB (constructor example_viewer default_cfg) 2" 2 example_viewer default_cfg
        "constructor example_viewer default_cfg" "[0, 1, 2]"]
  have o: "node_objects (insertEntityIntoKDTree 8 (\<lambda>x. x) example_tree
         (objectAABB (constructor example_viewer default_cfg) 2) 2 8) = Some [0, 2]"
    using t ex(1) by simp
  have bx: "node_aabb (insertEntityIntoKDTree 8 (\<lambda>x. x) example_tree
         (objectAABB (constructor example_viewer default_cfg) 2) 2 8)
       = \<lparr>a0 = 0, a1 = 0, a2 = 0, a3 = 4, a4 = 4, a5 = 4\<rparr>"
    using t ex(2,3) by (simp add: expandAABB3_def)
  show ?thesis
    using ev ex(1) o bx t
    by (simp add: example_tree_def)
qed

text \<open>
  C8. After every sequence of insertions into a fresh root, every node's bound contains, as a
  set of points, the box of every object registered in the node's subtree. During an
  insertion every node's bound only grows: each node of the tree before is a node of the
  tree after, with a bound that contains its earlier bound. When an object lands in a node's
  overflow list the node's bound is expanded to cover its earlier bound and the object's box.
\<close>

theorem kd_bounds_contain_and_grow:
  "kd_contained (objectAABB s) (buildKDTree_root f32 s idxs)
   \<and> (\<forall>idx \<in> set (subtree_objects (buildKDTree_root f32 s idxs)).
        aabb_points (objectAABB s idx) \<subseteq> aabb_points (node_aabb (buildKDTree_root f32 s idxs)))
   \<and> kd_grows n (insertEntityIntoKDTree md f32 n e idx d)
   \<and> node_aabb (kd_store n e idx) = expandAABB3 (node_aabb n) e
   \<and> aabb_points (node_aabb n) \<union> aabb_points e \<subseteq> aabb_points (expandAABB3 (node_aabb n) e)"
proof -
  have inv: "kd_inv (objectAABB s) (buildKDTree_root f32 s idxs)" by (rule build_inv)
  have "aabb_points (node_aabb n) \<subseteq> aabb_points (expandAABB3 (node_aabb n) e)"
       "aabb_points e \<subseteq> aabb_points (expandAABB3 (node_aabb n) e)"
    using contains_box_subset[OF expand_contains(1)] contains_box_subset[OF expand_contains(2)]
    by (simp_all add: box_subset_points)
  then show ?thesis
    using kd_inv_contained[OF inv] kd_inv_subtree[OF inv] kd_grows_insert[of n md f32 e idx d]
    by (simp add: box_subset_points[symmetric])
qed

theorem kd_bounds_contain_and_grow_witness:
  "2 \<in> set (subtree_objects example_tree)
   \<and> aabb_points (objectAABB (constructor example_viewer default_cfg) 2) \<subseteq> aabb_points (node_aabb example_tree)
   \<and> kd_contained (objectAABB (constructor example_viewer default_cfg)) example_tree
   \<and> kd_grows example_tree
        (insertEntityIntoKDTree 8 (\<lambda>x. x) example_tree (objectAABB (constructor example_viewer default_cfg) 0) 0 1)"
proof -
  have m: "2 \<in> set (subtree_objects example_tree)"
    using example_tree_eval by simp
  show ?thesis
    using m kd_bounds_contain_and_grow[of "constructor example_viewer default_cfg" "\<lambda>x. x" "[0, 1, 2]"
        example_tree 8 "objectAABB (constructor example_viewer default_cfg) 0" 0 1]
    by (simp add: example_tree_def)
qed

section \<open>Lemmas about the motion state machine\<close>

lemma buildCullObjects_frame:
  "\<exists>cs n f. buildCullObjects s = s\<lparr>cullSet := cs, cullSetLen := n, cullSetDirty := False, objectsViewCulled := f\<rparr>"
proof -
  let ?f = "\<lambda>j. if j \<in> set (take (cullSetLen s) (cullSet s)) then False else objectsViewCulled s j"
  obtain cs n where "fold buildCullObjects_body [0 ..< numObjects s] (s\<lparr>objectsViewCulled := ?f, cullSetLen := 0\<rparr>)
     = s\<lparr>objectsViewCulled := ?f, cullSetLen := 0\<rparr>\<lparr>cullSet := cs, cullSetLen := n\<rparr>"
    using fold_body_frame by blast
  then have "buildCullObjects s = s\<lparr>cullSet := cs, cullSetLen := n, cullSetDirty := False, objectsViewCulled := ?f\<rparr>"
    by (simp add: buildCullObjects_def Let_def fold_setView numObjects_def)
  then show ?thesis by blast
qed

lemma setObjectsCulled_frame:
  "\<exists>cs n d f g. setObjectsCulled b s =
     s\<lparr>cullSet := cs, cullSetLen := n, cullSetDirty := d, culling := Some b,
       objectsViewCulled := f, objectsDetailCulled := g\<rparr>"
proof (cases "cullSetDirty s")
  case True
  obtain cs n f where "buildCullObjects s = s\<lparr>cullSet := cs, cullSetLen := n, cullSetDirty := False, objectsViewCulled := f\<rparr>"
    using buildCullObjects_frame by blast
  then have "setObjectsCulled b s = s\<lparr>cullSet := cs, cullSetLen := n, cullSetDirty := False, culling := Some b,
       objectsViewCulled := f, objectsDetailCulled := (\<lambda>j. if j \<in> set cs then b else objectsDetailCulled s j)\<rparr>"
    using True by (simp add: setObjectsCulled_def Let_def fold_setDetail)
  then show ?thesis by blast
next
  case False
  then have "setObjectsCulled b s = s\<lparr>cullSet := cullSet s, cullSetLen := cullSetLen s, cullSetDirty := cullSetDirty s, culling := Some b,
       objectsViewCulled := objectsViewCulled s, objectsDetailCulled := (\<lambda>j. if j \<in> set (cullSet s) then b else objectsDetailCulled s j)\<rparr>"
    by (simp add: setObjectsCulled_def Let_def fold_setDetail)
  then show ?thesis by blast
qed

lemma setObjectsCulled_applied:
  "culling (setObjectsCulled b s) = Some b
   \<and> (\<forall>idx \<in> set (cullSet (setObjectsCulled b s)). objectsDetailCulled (setObjectsCulled b s) idx = b)
   \<and> \<not> cullSetDirty (setObjectsCulled b s)"
proof (cases "cullSetDirty s")
  case True
  obtain cs n f where "buildCullObjects s = s\<lparr>cullSet := cs, cullSetLen := n, cullSetDirty := False, objectsViewCulled := f\<rparr>"
    using buildCullObjects_frame by blast
  then show ?thesis using True by (simp add: setObjectsCulled_def Let_def fold_setDetail)
next
  case False
  then show ?thesis by (simp add: setObjectsCulled_def Let_def fold_setDetail)
qed

lemma setObjectsCulled_fields [simp]:
  "timers (setObjectsCulled b s) = timers s" "nextTimer (setObjectsCulled b s) = nextTimer s"
  "img (setObjectsCulled b s) = img s" "pInterval (setObjectsCulled b s) = pInterval s"
  "pInterval2 (setObjectsCulled b s) = pInterval2 s" "fastMode (setObjectsCulled b s) = fastMode s"
  "timer (setObjectsCulled b s) = timer s" "down (setObjectsCulled b s) = down s"
  "scene_pbr (setObjectsCulled b s) = scene_pbr s"
  "scene_sao_enabled (setObjectsCulled b s) = scene_sao_enabled s"
  "scene_edges (setObjectsCulled b s) = scene_edges s"
  "hidePBR (setObjectsCulled b s) = hidePBR s" "hideSAO (setObjectsCulled b s) = hideSAO s"
  "hideEdges (setObjectsCulled b s) = hideEdges s"
proof -
  obtain cs n d f g where e: "setObjectsCulled b s =
     s\<lparr>cullSet := cs, cullSetLen := n, cullSetDirty := d, culling := Some b,
       objectsViewCulled := f, objectsDetailCulled := g\<rparr>"
    using setObjectsCulled_frame by blast
  show "timers (setObjectsCulled b s) = timers s" "nextTimer (setObjectsCulled b s) = nextTimer s"
  "img (setObjectsCulled b s) = img s" "pInterval (setObjectsCulled b s) = pInterval s"
  "pInterval2 (setObjectsCulled b s) = pInterval2 s" "fastMode (setObjectsCulled b s) = fastMode s"
  "timer (setObjectsCulled b s) = timer s" "down (setObjectsCulled b s) = down s"
  "scene_pbr (setObjectsCulled b s) = scene_pbr s"
  "scene_sao_enabled (setObjectsCulled b s) = scene_sao_enabled s"
  "scene_edges (setObjectsCulled b s) = scene_edges s"
  "hidePBR (setObjectsCulled b s) = hidePBR s" "hideSAO (setObjectsCulled b s) = hideSAO s"
  "hideEdges (setObjectsCulled b s) = hideEdges s"
    by (simp_all add: e)
qed

lemma tracked_empty: "timers s = Map.empty \<Longrightarrow> 0 < nextTimer s \<Longrightarrow> timers_tracked s"
  by (simp add: timers_tracked_def tracked_fields_def)

lemma tracked_next: "timers_tracked s \<Longrightarrow> 0 < nextTimer s"
  by (simp add: timers_tracked_def tracked_fields_def)

lemma tracked_live:
  assumes "timers_tracked s" "timers s h = Some cb"
  shows "h \<noteq> 0" "h < nextTimer s" "img s \<noteq> None"
    "cb = Recovery \<Longrightarrow> pInterval2 s = Some h \<and> \<not> fastMode s"
    "cb = FadeStep opacity inc \<Longrightarrow> pInterval s = Some h"
proof -
  have "case timers s h of None \<Rightarrow> True
     | Some cb \<Rightarrow> h \<noteq> 0 \<and> h < nextTimer s \<and> img s \<noteq> None
         \<and> (case cb of Recovery \<Rightarrow> pInterval2 s = Some h \<and> \<not> fastMode s
              | FadeStep opacity inc \<Rightarrow> pInterval s = Some h)"
    using assms(1) unfolding timers_tracked_def tracked_fields_def by blast
  then have a: "h \<noteq> 0 \<and> h < nextTimer s \<and> img s \<noteq> None
         \<and> (case cb of Recovery \<Rightarrow> pInterval2 s = Some h \<and> \<not> fastMode s
              | FadeStep opacity inc \<Rightarrow> pInterval s = Some h)"
    using assms(2) by simp
  show "h \<noteq> 0" "h < nextTimer s" "img s \<noteq> None" using a by simp_all
  show "cb = Recovery \<Longrightarrow> pInterval2 s = Some h \<and> \<not> fastMode s" using a by simp
  show "cb = FadeStep opacity inc \<Longrightarrow> pInterval s = Some h" using a by simp
qed

lemma cancelFade_timers:
  assumes "timers_tracked s"
  shows "timers (cancelFade s) = Map.empty"
proof (rule ext)
  fix h
  show "timers (cancelFade s) h = None"
  proof (cases "timers s h")
    case None
    then show ?thesis
      by (auto simp: cancelFade_def clear_if_set_def clearInterval_def Let_def split: option.splits)
  next
    case (Some cb)
    note l = tracked_live[OF assms Some]
    show ?thesis
    proof (cases cb)
      case Recovery
      then show ?thesis using l(1,3) l(4)[OF Recovery]
        by (auto simp: cancelFade_def clear_if_set_def clearInterval_def Let_def split: option.splits)
    next
      case (FadeStep opacity inc)
      then show ?thesis using l(1,3) l(5)[OF FadeStep]
        by (auto simp: cancelFade_def clear_if_set_def clearInterval_def Let_def split: option.splits)
    qed
  qed
qed

lemma cancelFade_fields [simp]:
  "nextTimer (cancelFade s) = nextTimer s" "fastMode (cancelFade s) = fastMode s"
  "timer (cancelFade s) = timer s" "down (cancelFade s) = down s"
  "scene_pbr (cancelFade s) = scene_pbr s" "scene_sao_enabled (cancelFade s) = scene_sao_enabled s"
  "scene_edges (cancelFade s) = scene_edges s"
  "hidePBR (cancelFade s) = hidePBR s" "hideSAO (cancelFade s) = hideSAO s"
  "hideEdges (cancelFade s) = hideEdges s"
  by (simp_all add: cancelFade_def clear_if_set_def clearInterval_def Let_def split: option.splits)

lemma cancelFade_tracked: "timers_tracked s \<Longrightarrow> timers_tracked (cancelFade s)"
  by (rule tracked_empty) (simp_all add: cancelFade_timers tracked_next)

lemma tracked_upd [simp]:
  "timers_tracked (s\<lparr>timer := t\<rparr>) = timers_tracked s"
  "timers_tracked (s\<lparr>frustumDirty := b\<rparr>) = timers_tracked s"
  "timers_tracked (s\<lparr>down := b\<rparr>) = timers_tracked s"
  "timers_tracked (s\<lparr>scene_pbr := b\<rparr>) = timers_tracked s"
  "timers_tracked (s\<lparr>scene_sao_enabled := b\<rparr>) = timers_tracked s"
  "timers_tracked (s\<lparr>scene_edges := b\<rparr>) = timers_tracked s"
  "timers_tracked (s\<lparr>hidePBR := v\<rparr>) = timers_tracked s"
  "timers_tracked (s\<lparr>hideSAO := v\<rparr>) = timers_tracked s"
  "timers_tracked (s\<lparr>hideEdges := v\<rparr>) = timers_tracked s"
  "timers_tracked (s\<lparr>hideSmallerThan := x\<rparr>) = timers_tracked s"
  "timers_tracked (s\<lparr>hideMoreTrianglesThan := x\<rparr>) = timers_tracked s"
  "timers_tracked (s\<lparr>hideTypes := ts\<rparr>) = timers_tracked s"
  "timers_tracked (s\<lparr>dontHideTypes := ts\<rparr>) = timers_tracked s"
  "timers_tracked (s\<lparr>hideTypesMap := m\<rparr>) = timers_tracked s"
  "timers_tracked (s\<lparr>dontHideTypesMap := m\<rparr>) = timers_tracked s"
  "timers_tracked (s\<lparr>cullSetDirty := b\<rparr>) = timers_tracked s"
  by (simp_all add: timers_tracked_def)

lemma setObjectsCulled_tracked [simp]: "timers_tracked (setObjectsCulled b s) = timers_tracked s"
  by (simp add: timers_tracked_def)

lemma startHiding_timers:
  "timers_tracked s \<Longrightarrow> timers (startHiding s) = (if fastMode s then timers s else Map.empty)"
  by (simp add: startHiding_def Let_def cancelFade_timers)

lemma startHiding_tracked:
  assumes "timers_tracked s"
  shows "timers_tracked (startHiding s)"
proof (cases "fastMode s")
  case True
  then show ?thesis using assms by (simp add: startHiding_def Let_def)
next
  case False
  have "nextTimer (startHiding s) = nextTimer s" by (simp add: startHiding_def Let_def)
  then show ?thesis
    using False assms by (intro tracked_empty) (simp_all add: startHiding_timers tracked_next)
qed

lemma tracked_img: "timers_tracked s \<Longrightarrow> timers_tracked (s\<lparr>img := Some i\<rparr>)"
  by (auto simp: timers_tracked_def tracked_fields_def split: option.splits callback.splits)

lemma clear_pInterval_empty:
  assumes "timers_tracked s" "fastMode s"
  shows "timers (clear_if_set (pInterval s) s) = Map.empty"
proof (rule ext)
  fix h
  show "timers (clear_if_set (pInterval s) s) h = None"
  proof (cases "timers s h")
    case None
    then show ?thesis by (auto simp: clear_if_set_def clearInterval_def split: option.splits)
  next
    case (Some cb)
    note l = tracked_live[OF assms(1) Some]
    show ?thesis
    proof (cases cb)
      case Recovery
      then show ?thesis using l(4) assms(2) by simp
    next
      case (FadeStep opacity inc)
      then show ?thesis using l(1) l(5)[OF FadeStep]
        by (simp add: clear_if_set_def clearInterval_def)
    qed
  qed
qed

lemma clear_if_set_fields [simp]:
  "nextTimer (clear_if_set v s) = nextTimer s" "fastMode (clear_if_set v s) = fastMode s"
  "img (clear_if_set v s) = img s" "pInterval (clear_if_set v s) = pInterval s"
  "pInterval2 (clear_if_set v s) = pInterval2 s" "fadeMillisecs (clear_if_set v s) = fadeMillisecs s"
  by (simp_all add: clear_if_set_def clearInterval_def split: option.splits)

lemma startFade_fail:
  assumes "timers_tracked s" "fastMode s"
  shows "\<exists>s'. startFade None s = Inl (SnapshotError, s') \<and> timers s' = Map.empty
           \<and> nextTimer s' = nextTimer s \<and> fastMode s' \<and> pInterval2 s' = pInterval2 s"
proof (cases "img s")
  case None
  have t: "timers_tracked (initFade s)" unfolding initFade_def using assms(1) by (rule tracked_img)
  have f: "fastMode (initFade s)" using assms(2) by (simp add: initFade_def)
  have p: "pInterval2 (initFade s) = pInterval2 s" "nextTimer (initFade s) = nextTimer s"
    by (simp_all add: initFade_def)
  show ?thesis
    using None clear_pInterval_empty[OF t f] f p by (simp add: startFade_def Let_def)
next
  case (Some i)
  then show ?thesis
    using clear_pInterval_empty[OF assms] assms(2) by (simp add: startFade_def Let_def)
qed

lemma startFade_ok:
  assumes "timers_tracked s" "fastMode s"
  shows "\<exists>s'. startFade (Some data) s = Inr s'
           \<and> timers s' = [nextTimer s \<mapsto> FadeStep 1 (1 / (fadeMillisecs s / 50))]
           \<and> nextTimer s' = nextTimer s + 1 \<and> fastMode s' \<and> pInterval2 s' = pInterval2 s
           \<and> pInterval s' = Some (nextTimer s) \<and> img s' \<noteq> None"
proof (cases "img s")
  case None
  have t: "timers_tracked (initFade s)" unfolding initFade_def using assms(1) by (rule tracked_img)
  have f: "fastMode (initFade s)" using assms(2) by (simp add: initFade_def)
  have p: "pInterval2 (initFade s) = pInterval2 s" "nextTimer (initFade s) = nextTimer s"
    "fadeMillisecs (initFade s) = fadeMillisecs s" "img (initFade s) \<noteq> None"
    by (simp_all add: initFade_def)
  show ?thesis
    using None clear_pInterval_empty[OF t f] f p by (simp add: startFade_def Let_def setTimer_def)
next
  case (Some i)
  then show ?thesis
    using clear_pInterval_empty[OF assms] assms(2) by (simp add: startFade_def Let_def setTimer_def)
qed

lemma only_new_refl: "only_new s s"
  by (simp add: only_new_def)

lemma only_new_trans: "only_new s s' \<Longrightarrow> only_new s' s'' \<Longrightarrow> only_new s s''"
  by (fastforce simp: only_new_def)

lemma only_new_same: "timers s' = timers s \<Longrightarrow> nextTimer s' = nextTimer s \<Longrightarrow> only_new s s'"
  by (simp add: only_new_def)

lemma cancelFade_only_new: "only_new s (cancelFade s)"
  by (auto simp: only_new_def cancelFade_def clear_if_set_def clearInterval_def Let_def split: option.splits)

lemma startHiding_only_new: "only_new s (startHiding s)"
proof -
  have "only_new (s\<lparr>timer := timeoutDuration\<rparr>) (cancelFade (s\<lparr>timer := timeoutDuration\<rparr>))"
    by (rule cancelFade_only_new)
  then show ?thesis
    by (simp add: startHiding_def Let_def only_new_def)
qed

lemma startFade_only_new: "only_new s (after (startFade snapshot s))"
  by (auto simp: only_new_def startFade_def initFade_def setTimer_def clear_if_set_def clearInterval_def
      after_def Let_def split: option.splits)

lemma tick_only_new: "only_new s (after (onSceneTick deltaTime snapshot s))"
proof (cases "fastMode s \<and> timer s - deltaTime \<le> 0")
  case False
  then show ?thesis by (auto simp: onSceneTick_def after_def Let_def only_new_def)
next
  case True
  let ?s = "s\<lparr>timer := timer s - deltaTime\<rparr>"
  have a: "only_new ?s (after (startFade snapshot ?s))" by (rule startFade_only_new)
  show ?thesis
  proof (cases "startFade snapshot ?s")
    case (Inl es)
    then show ?thesis using True a by (simp add: onSceneTick_def after_def Let_def only_new_def)
  next
    case (Inr s1)
    then show ?thesis using True a
      by (auto simp: onSceneTick_def after_def Let_def only_new_def setTimer_def)
  qed
qed

lemma recovery_fields [simp]:
  "timers (recovery s) = timers s" "nextTimer (recovery s) = nextTimer s"
  "img (recovery s) = img s" "pInterval (recovery s) = pInterval s"
  "pInterval2 (recovery s) = pInterval2 s" "fastMode (recovery s) = fastMode s"
  by (simp_all add: recovery_def Let_def)

lemma fireTimer_only_new: "only_new s (after (fireTimer h s))"
proof (cases "timers s h")
  case None
  then show ?thesis by (simp add: fireTimer_def after_def only_new_refl)
next
  case (Some cb)
  show ?thesis
  proof (cases cb)
    case Recovery
    then show ?thesis using Some by (simp add: fireTimer_def after_def only_new_def)
  next
    case (FadeStep opacity inc)
    then show ?thesis using Some
      by (auto simp: fireTimer_def fadeStep_def after_def only_new_def clearInterval_def Let_def
          split: option.splits)
  qed
qed

lemma step_only_new: "only_new s (step ev s)"
proof (cases ev)
  case (Tick dt snap)
  then show ?thesis by (simp add: tick_only_new)
next
  case (TimerFires h)
  then show ?thesis by (simp add: fireTimer_only_new)
next
  case MouseMove
  then show ?thesis by (simp add: onSceneMouseMove_def startHiding_only_new only_new_refl)
qed (simp_all add: startHiding_only_new cancelFade_only_new send_clear_def only_new_same
      onSceneMouseDown_def onSceneMouseUp_def set_hidePBR_def set_hideSAO_def set_hideEdges_def
      set_hideSmallerThan_def set_hideMoreTrianglesThan_def set_hideTypes_def set_dontHideTypes_def Let_def)

lemma run_only_new: "only_new s (run es s)"
proof (induction es arbitrary: s)
  case Nil
  then show ?case by (simp add: run_def only_new_refl)
next
  case (Cons ev es)
  have "only_new s (step ev s)" by (rule step_only_new)
  moreover have "only_new (step ev s) (run es (step ev s))" by (rule Cons.IH)
  ultimately have "only_new s (run es (step ev s))" by (rule only_new_trans)
  then show ?case by (simp add: run_def)
qed

lemma tick_tracked:
  assumes "timers_tracked s"
  shows "timers_tracked (after (onSceneTick deltaTime snapshot s))"
proof (cases "fastMode s \<and> timer s - deltaTime \<le> 0")
  case False
  then show ?thesis using assms by (auto simp: onSceneTick_def after_def Let_def)
next
  case True
  let ?s = "s\<lparr>timer := timer s - deltaTime\<rparr>"
  have t: "timers_tracked ?s" "fastMode ?s" using assms True by simp_all
  show ?thesis
  proof (cases snapshot)
    case None
    obtain s' where "startFade None ?s = Inl (SnapshotError, s')" "timers s' = Map.empty"
      "nextTimer s' = nextTimer ?s"
      using startFade_fail[OF t] by blast
    then show ?thesis
      using True None tracked_next[OF assms]
      by (simp add: onSceneTick_def after_def Let_def tracked_empty)
  next
    case (Some data)
    obtain s' where s': "startFade (Some data) ?s = Inr s'"
      "timers s' = [nextTimer ?s \<mapsto> FadeStep 1 (1 / (fadeMillisecs ?s / 50))]"
      "nextTimer s' = nextTimer ?s + 1" "pInterval s' = Some (nextTimer ?s)" "img s' \<noteq> None"
      using startFade_ok[OF t] by blast
    have "timers_tracked (s'\<lparr>timers := (timers s')(nextTimer s' \<mapsto> Recovery), nextTimer := nextTimer s' + 1,
        pInterval2 := Some (nextTimer s'), fastMode := False\<rparr>)"
      using s'(2-5) tracked_next[OF assms]
      by (simp add: timers_tracked_def tracked_fields_def)
    then show ?thesis
      using True Some s'(1) by (simp add: onSceneTick_def after_def Let_def setTimer_def)
  qed
qed

lemma fireTimer_tracked:
  assumes "timers_tracked s"
  shows "timers_tracked (after (fireTimer h s))"
proof (cases "timers s h")
  case None
  then show ?thesis using assms by (simp add: fireTimer_def after_def)
next
  case (Some cb)
  note l = tracked_live[OF assms Some]
  show ?thesis
  proof (cases cb)
    case Recovery
    have "timers_tracked (s\<lparr>timers := (timers s)(h := None)\<rparr>)"
      using assms by (auto simp: timers_tracked_def tracked_fields_def split: option.splits)
    then have "timers_tracked (recovery (s\<lparr>timers := (timers s)(h := None)\<rparr>))"
      by (simp add: timers_tracked_def)
    then show ?thesis using Some Recovery by (simp add: fireTimer_def after_def)
  next
    case (FadeStep opacity inc)
    obtain i where i: "img s = Some i" using l(3) by blast
    have p: "pInterval s = Some h" using l(5)[OF FadeStep] .
    have a: "timers_tracked (s\<lparr>timers := (timers s)(h \<mapsto> FadeStep (opacity - inc) inc), img := Some j\<rparr>)" for j
      using assms Some FadeStep p
      by (auto simp: timers_tracked_def tracked_fields_def split: option.splits callback.splits)
    have b: "timers_tracked (s\<lparr>img := Some j, timers := (timers s)(h := None), pInterval := None\<rparr>)" for j
      using assms Some FadeStep p
      by (auto simp: timers_tracked_def tracked_fields_def split: option.splits callback.splits)
    show ?thesis
      using Some FadeStep i p a b
      by (simp add: fireTimer_def fadeStep_def after_def clearInterval_def Let_def)
  qed
qed

lemma step_tracked: "timers_tracked s \<Longrightarrow> timers_tracked (step ev s)"
proof (cases ev)
  case (Tick dt snap)
  assume "timers_tracked s"
  then show ?thesis using Tick by (simp add: tick_tracked)
next
  case (TimerFires h)
  assume "timers_tracked s"
  then show ?thesis using TimerFires by (simp add: fireTimer_tracked)
qed (simp_all add: startHiding_tracked cancelFade_tracked send_clear_def onSceneMouseMove_def
      onSceneMouseDown_def onSceneMouseUp_def set_hidePBR_def set_hideSAO_def set_hideEdges_def
      set_hideSmallerThan_def set_hideMoreTrianglesThan_def set_hideTypes_def set_dontHideTypes_def Let_def)

lemma run_tracked: "timers_tracked s \<Longrightarrow> timers_tracked (run es s)"
proof (induction es arbitrary: s)
  case Nil
  then show ?case by (simp add: run_def)
next
  case (Cons ev es)
  then show ?case using step_tracked[of s ev] by (simp add: run_def)
qed

lemma constructor_tracked:
  "v_timers v = Map.empty \<Longrightarrow> 0 < v_nextTimer v \<Longrightarrow> timers_tracked (constructor v c)"
  by (rule tracked_empty) (simp_all add: ex_defs)

lemmas sm_unfold = onSceneTick_def startFade_def initFade_def setTimer_def clear_if_set_def
  clearInterval_def null_if_set_def handle_truthy_def after_def Let_def

lemma tick_fields:
  "hidePBR (after (onSceneTick dt snap s)) = hidePBR s"
  "hideSAO (after (onSceneTick dt snap s)) = hideSAO s"
  "hideEdges (after (onSceneTick dt snap s)) = hideEdges s"
  "scene_pbr (after (onSceneTick dt snap s)) = scene_pbr s"
  "scene_sao_enabled (after (onSceneTick dt snap s)) = scene_sao_enabled s"
  "scene_edges (after (onSceneTick dt snap s)) = scene_edges s"
  "objectsDetailCulled (after (onSceneTick dt snap s)) = objectsDetailCulled s"
  "culling (after (onSceneTick dt snap s)) = culling s"
  "cullSet (after (onSceneTick dt snap s)) = cullSet s"
  by (simp_all add: sm_unfold split: option.splits)

lemma tick_throws:
  "fastMode s \<Longrightarrow> timer s - dt \<le> 0 \<Longrightarrow>
   onSceneTick dt None s = Inl (SnapshotError, after (onSceneTick dt None s))
   \<and> fastMode (after (onSceneTick dt None s))
   \<and> timer (after (onSceneTick dt None s)) = timer s - dt
   \<and> pInterval2 (after (onSceneTick dt None s)) = pInterval2 s"
  by (simp add: sm_unfold split: option.splits)

lemma tick_throws_timers:
  assumes "timers_tracked s" "fastMode s" "timer s - dt \<le> 0"
  shows "timers (after (onSceneTick dt None s)) = Map.empty"
proof -
  let ?s = "s\<lparr>timer := timer s - dt\<rparr>"
  have t: "timers_tracked ?s" "fastMode ?s" using assms by simp_all
  obtain s' where "startFade None ?s = Inl (SnapshotError, s')" "timers s' = Map.empty"
    using startFade_fail[OF t] by blast
  then show ?thesis using assms(2,3) by (simp add: onSceneTick_def after_def Let_def)
qed

lemma tick_schedules:
  assumes "timers_tracked s" "fastMode s" "timer s - dt \<le> 0"
  shows "onSceneTick dt (Some data) s = Inr (after (onSceneTick dt (Some data) s))
       \<and> \<not> fastMode (after (onSceneTick dt (Some data) s))
       \<and> timers (after (onSceneTick dt (Some data) s)) (nextTimer s + 1) = Some Recovery
       \<and> pInterval2 (after (onSceneTick dt (Some data) s)) = Some (nextTimer s + 1)"
proof -
  let ?s = "s\<lparr>timer := timer s - dt\<rparr>"
  have t: "timers_tracked ?s" "fastMode ?s" using assms by simp_all
  obtain s' where s': "startFade (Some data) ?s = Inr s'" "nextTimer s' = nextTimer ?s + 1"
    using startFade_ok[OF t] by blast
  then show ?thesis using assms(2,3) by (simp add: onSceneTick_def after_def Let_def setTimer_def)
qed

lemma setObjectsCulled_culling [simp]: "culling (setObjectsCulled b s) = Some b"
  using setObjectsCulled_applied by blast

lemma setObjectsCulled_flags:
  "idx \<in> set (cullSet (setObjectsCulled b s)) \<Longrightarrow> objectsDetailCulled (setObjectsCulled b s) idx = b"
  using setObjectsCulled_applied by blast

lemma recovery_effects:
  "scene_pbr (recovery s) = (if truthy (hidePBR s) then True else scene_pbr s)"
  "scene_sao_enabled (recovery s) = (if truthy (hideSAO s) then True else scene_sao_enabled s)"
  "scene_edges (recovery s) = (if truthy (hideEdges s) then True else scene_edges s)"
  "culling (recovery s) = Some False"
  by (simp_all add: recovery_def Let_def)

lemma recovery_flags:
  "idx \<in> set (cullSet (recovery s)) \<Longrightarrow> \<not> objectsDetailCulled (recovery s) idx"
  unfolding recovery_def Let_def using setObjectsCulled_flags[of idx False] by blast

lemma startHiding_enters_fast:
  assumes "\<not> fastMode s"
  shows "fastMode (startHiding s)" "timer (startHiding s) = 600"
    "scene_pbr (startHiding s) = (if truthy (hidePBR s) then False else scene_pbr s)"
    "scene_sao_enabled (startHiding s) = (if truthy (hideSAO s) then False else scene_sao_enabled s)"
    "scene_edges (startHiding s) = (if truthy (hideEdges s) then False else scene_edges s)"
    "culling (startHiding s) = Some True"
    "nextTimer (startHiding s) = nextTimer s"
  using assms by (simp_all add: startHiding_def Let_def timeoutDuration_def)

lemma startHiding_flags:
  assumes "\<not> fastMode s" "idx \<in> set (cullSet (startHiding s))"
  shows "objectsDetailCulled (startHiding s) idx"
  using assms setObjectsCulled_flags[of idx True]
  by (simp add: startHiding_def Let_def)

lemma startHiding_pInterval2:
  assumes "\<not> fastMode s" "img s \<noteq> None" "pInterval2 s = Some h" "h \<noteq> 0"
  shows "pInterval2 (startHiding s) = None"
    "\<exists>i. img (startHiding s) = Some i \<and> \<not> img_visible i \<and> img_opacity i = 0"
  using assms
  by (auto simp: startHiding_def cancelFade_def null_if_set_def handle_truthy_def Let_def)

lemmas sm_eval = run_def startHiding_def cancelFade_def setObjectsCulled_def setObjectDetailCulled_def
  recovery_def fireTimer_def fadeStep_def onSceneMouseMove_def onSceneMouseDown_def onSceneMouseUp_def
  send_clear_def destroy_def timeoutDuration_def effects_cfg_def

lemma buildCullObjects_keeps_detailCulled:
  "objectsDetailCulled (buildCullObjects s) = objectsDetailCulled s"
proof -
  obtain cs n f where "buildCullObjects s =
      s\<lparr>cullSet := cs, cullSetLen := n, cullSetDirty := False, objectsViewCulled := f\<rparr>"
    using buildCullObjects_frame by blast
  then show ?thesis by simp
qed

section \<open>Interruption and recovery\<close>

text \<open>
  C9. Take any state the plugin reaches from its constructor (in a browser whose timer table
  holds no timer yet and whose handles are positive) in which a delayed recovery is pending,
  so the idle countdown has expired and the recovery callback has not run. When a
  Quality-to-Fast trigger arrives, the pending recovery is cancelled and the fade stopped (no
  timer of the plugin is left and the overlay is hidden), the cancelled recovery can never
  run afterwards whatever events follow, every configured effect is suppressed, detail
  culling is applied to the whole cull set, and the machine is in Fast with the full
  countdown of 600.
\<close>

theorem interruption_cancels_recovery:
  assumes "v_timers v = Map.empty" "0 < v_nextTimer v"
    and "s = run es (constructor v c)"
    and "timers s h = Some Recovery"
    and "is_trigger ev s"
  shows "timers (step ev s) = Map.empty
       \<and> pInterval2 (step ev s) = None
       \<and> (\<exists>i. img (step ev s) = Some i \<and> \<not> img_visible i \<and> img_opacity i = 0)
       \<and> (\<forall>es'. timers (run es' (step ev s)) h = None
                \<and> step (TimerFires h) (run es' (step ev s)) = run es' (step ev s))
       \<and> (truthy (hidePBR s) \<longrightarrow> \<not> scene_pbr (step ev s))
       \<and> (truthy (hideSAO s) \<longrightarrow> \<not> scene_sao_enabled (step ev s))
       \<and> (truthy (hideEdges s) \<longrightarrow> \<not> scene_edges (step ev s))
       \<and> culling (step ev s) = Some True
       \<and> (\<forall>idx \<in> set (cullSet (step ev s)). objectsDetailCulled (step ev s) idx)
       \<and> fastMode (step ev s) \<and> timer (step ev s) = 600"
proof -
  have tr: "timers_tracked s"
    unfolding assms(3) by (rule run_tracked) (rule constructor_tracked[OF assms(1,2)])
  note l = tracked_live[OF tr assms(4)]
  have nf: "\<not> fastMode s" and p2: "pInterval2 s = Some h" using l(4) by simp_all
  have st: "step ev s = startHiding s"
    using assms(5) by (auto simp: is_trigger_def onSceneMouseMove_def)
  have tm: "timers (startHiding s) = Map.empty"
    using startHiding_timers[OF tr] nf by simp
  have never: "timers (run es' (startHiding s)) h = None
      \<and> step (TimerFires h) (run es' (startHiding s)) = run es' (startHiding s)" for es'
  proof -
    have "only_new (startHiding s) (run es' (startHiding s))" by (rule run_only_new)
    moreover have "h < nextTimer (startHiding s)" using l(2) startHiding_enters_fast(7)[OF nf] by simp
    ultimately have "timers (run es' (startHiding s)) h = None"
      using tm by (simp add: only_new_def)
    then show ?thesis by (simp add: fireTimer_def after_def)
  qed
  show ?thesis
    unfolding st
    using tm never startHiding_pInterval2[OF nf l(3) p2 l(1)] startHiding_enters_fast[OF nf]
      startHiding_flags[OF nf]
    by simp
qed

theorem interruption_cancels_recovery_witness:
  "v_timers example_viewer = Map.empty \<and> 0 < v_nextTimer example_viewer
   \<and> timers (run [ViewMatrix, Tick 600 (Some ''png'')] (constructor example_viewer effects_cfg)) 2 = Some Recovery
   \<and> is_trigger ProjMatrix (run [ViewMatrix, Tick 600 (Some ''png'')] (constructor example_viewer effects_cfg))
   \<and> timers (step ProjMatrix (run [ViewMatrix, Tick 600 (Some ''png'')] (constructor example_viewer effects_cfg)))
       = Map.empty
   \<and> fastMode (step ProjMatrix (run [ViewMatrix, Tick 600 (Some ''png'')] (constructor example_viewer effects_cfg)))
   \<and> \<not> scene_pbr (step ProjMatrix (run [ViewMatrix, Tick 600 (Some ''png'')] (constructor example_viewer effects_cfg)))
   \<and> cullSet (step ProjMatrix (run [ViewMatrix, Tick 600 (Some ''png'')] (constructor example_viewer effects_cfg)))
       = [0, 1]
   \<and> objectsDetailCulled
        (step ProjMatrix (run [ViewMatrix, Tick 600 (Some ''png'')] (constructor example_viewer effects_cfg))) 0"
proof -
  let ?s = "run [ViewMatrix, Tick 600 (Some ''png'')] (constructor example_viewer effects_cfg)"
  have a: "v_timers example_viewer = Map.empty" "0 < v_nextTimer example_viewer"
    by (simp_all add: example_viewer_def)
  have b: "timers ?s 2 = Some Recovery"
    by (simp add: sm_eval sm_unfold ex_defs cull_defs fold_setDetail)
  have c: "is_trigger ProjMatrix ?s" by (simp add: is_trigger_def)
  have d: "truthy (hidePBR ?s)"
    by (simp add: sm_eval sm_unfold ex_defs cull_defs fold_setDetail)
  have e: "cullSet (step ProjMatrix ?s) = [0, 1]"
    by (simp add: sm_eval sm_unfold ex_defs cull_defs fold_setDetail)
  show ?thesis
    using interruption_cancels_recovery[OF a refl b c] a b c d e by simp
qed

text \<open>
  C5, as the claim states it, fails. In the example scene the plugin enters Fast on a view
  matrix change. At the tick that expires the countdown the snapshot throws: the handler is
  left with \<open>SnapshotError\<close>, and afterwards, whichever timer handle the browser might fire,
  the machine is still in Fast, the three effects are still off and object 0 is still
  detail-culled, although before the motion PBR was on and object 0 was not culled.
\<close>

theorem capture_failure_counterexample:
  "fastMode (run [ViewMatrix] (constructor example_viewer effects_cfg))
   \<and> map_sum fst (\<lambda>s. ()) (onSceneTick 600 None (run [ViewMatrix] (constructor example_viewer effects_cfg)))
       = Inl SnapshotError
   \<and> fastMode (run [ViewMatrix, Tick 600 None, TimerFires 1, TimerFires 2]
                 (constructor example_viewer effects_cfg))
   \<and> \<not> scene_pbr (run [ViewMatrix, Tick 600 None, TimerFires 1, TimerFires 2]
                 (constructor example_viewer effects_cfg))
   \<and> \<not> scene_sao_enabled (run [ViewMatrix, Tick 600 None, TimerFires 1, TimerFires 2]
                 (constructor example_viewer effects_cfg))
   \<and> \<not> scene_edges (run [ViewMatrix, Tick 600 None, TimerFires 1, TimerFires 2]
                 (constructor example_viewer effects_cfg))
   \<and> objectsDetailCulled (run [ViewMatrix, Tick 600 None, TimerFires 1, TimerFires 2]
                 (constructor example_viewer effects_cfg)) 0
   \<and> scene_pbr (constructor example_viewer effects_cfg)
   \<and> \<not> objectsDetailCulled (constructor example_viewer effects_cfg) 0"
  by (simp add: sm_eval sm_unfold ex_defs cull_defs fold_setDetail)

text \<open>
  C5, amended. If capturing the snapshot throws at the tick where the idle countdown
  expires, the tick handler is left at that statement: no fade step and no delayed recovery is
  scheduled, the machine stays in Fast with the effects and the detail-cull flags as they
  were, and the countdown stays expired, so the next tick tries again. The recovery is
  scheduled only by a tick whose capture succeeds; when that recovery fires, every configured
  effect is re-enabled and \<open>_setObjectsCulled(false)\<close> runs, which clears \<open>detailCulled\<close> for
  the indices held in the cull-set array at that moment. Whether these are all the objects
  that were culled on entering Fast is not part of this statement.
\<close>

theorem capture_failure_leaves_fast:
  assumes "v_timers v = Map.empty" "0 < v_nextTimer v"
    and "s = run es (constructor v c)"
    and "fastMode s" "timer s - deltaTime \<le> 0"
  shows "onSceneTick deltaTime None s = Inl (SnapshotError, step (Tick deltaTime None) s)
       \<and> fastMode (step (Tick deltaTime None) s)
       \<and> timers (step (Tick deltaTime None) s) = Map.empty
       \<and> timer (step (Tick deltaTime None) s) \<le> 0
       \<and> scene_pbr (step (Tick deltaTime None) s) = scene_pbr s
       \<and> scene_sao_enabled (step (Tick deltaTime None) s) = scene_sao_enabled s
       \<and> scene_edges (step (Tick deltaTime None) s) = scene_edges s
       \<and> objectsDetailCulled (step (Tick deltaTime None) s) = objectsDetailCulled s
       \<and> culling (step (Tick deltaTime None) s) = culling s
       \<and> onSceneTick deltaTime (Some data) s = Inr (step (Tick deltaTime (Some data)) s)
       \<and> \<not> fastMode (step (Tick deltaTime (Some data)) s)
       \<and> timers (step (Tick deltaTime (Some data)) s) (nextTimer s + 1) = Some Recovery
       \<and> (truthy (hidePBR s) \<longrightarrow>
            scene_pbr (step (TimerFires (nextTimer s + 1)) (step (Tick deltaTime (Some data)) s)))
       \<and> (truthy (hideSAO s) \<longrightarrow>
            scene_sao_enabled (step (TimerFires (nextTimer s + 1)) (step (Tick deltaTime (Some data)) s)))
       \<and> (truthy (hideEdges s) \<longrightarrow>
            scene_edges (step (TimerFires (nextTimer s + 1)) (step (Tick deltaTime (Some data)) s)))
       \<and> culling (step (TimerFires (nextTimer s + 1)) (step (Tick deltaTime (Some data)) s)) = Some False
       \<and> (\<forall>idx \<in> set (cullSet (step (TimerFires (nextTimer s + 1)) (step (Tick deltaTime (Some data)) s))).
            \<not> objectsDetailCulled (step (TimerFires (nextTimer s + 1)) (step (Tick deltaTime (Some data)) s)) idx)"
proof -
  have tr: "timers_tracked s"
    unfolding assms(3) by (rule run_tracked) (rule constructor_tracked[OF assms(1,2)])
  let ?f = "step (Tick deltaTime None) s" and ?g = "step (Tick deltaTime (Some data)) s"
  let ?h = "nextTimer s + 1"
  have f: "onSceneTick deltaTime None s = Inl (SnapshotError, ?f)" "fastMode ?f" "timer ?f \<le> 0"
    using tick_throws[OF assms(4,5)] assms(5) by simp_all
  have ft: "timers ?f = Map.empty"
    using tick_throws_timers[OF tr assms(4,5)] by simp
  have ff: "scene_pbr ?f = scene_pbr s" "scene_sao_enabled ?f = scene_sao_enabled s"
    "scene_edges ?f = scene_edges s" "objectsDetailCulled ?f = objectsDetailCulled s"
    "culling ?f = culling s"
    by (simp_all add: tick_fields)
  have g: "onSceneTick deltaTime (Some data) s = Inr ?g" "\<not> fastMode ?g" "timers ?g ?h = Some Recovery"
    using tick_schedules[OF tr assms(4,5), of data] by simp_all
  have gh: "hidePBR ?g = hidePBR s" "hideSAO ?g = hideSAO s" "hideEdges ?g = hideEdges s"
    by (simp_all add: tick_fields)
  let ?r = "recovery (?g\<lparr>timers := (timers ?g)(?h := None)\<rparr>)"
  have fire: "step (TimerFires ?h) ?g = ?r"
    using g(3) by (simp add: fireTimer_def after_def)
  have r1: "truthy (hidePBR s) \<longrightarrow> scene_pbr ?r" "truthy (hideSAO s) \<longrightarrow> scene_sao_enabled ?r"
    "truthy (hideEdges s) \<longrightarrow> scene_edges ?r" "culling ?r = Some False"
    using gh by (simp_all add: recovery_effects)
  have r2: "\<forall>idx \<in> set (cullSet ?r). \<not> objectsDetailCulled ?r idx"
    using recovery_flags by blast
  show ?thesis
    unfolding fire using f ft ff g r1 r2 by simp
qed

theorem capture_failure_leaves_fast_witness:
  "v_timers example_viewer = Map.empty \<and> 0 < v_nextTimer example_viewer
   \<and> fastMode (run [ViewMatrix] (constructor example_viewer effects_cfg))
   \<and> timer (run [ViewMatrix] (constructor example_viewer effects_cfg)) - 600 \<le> 0
   \<and> fastMode (step (Tick 600 None) (run [ViewMatrix] (constructor example_viewer effects_cfg)))
   \<and> timers (step (Tick 600 None) (run [ViewMatrix] (constructor example_viewer effects_cfg))) = Map.empty
   \<and> \<not> fastMode (step (Tick 600 (Some ''png'')) (run [ViewMatrix] (constructor example_viewer effects_cfg)))
   \<and> scene_pbr (step (TimerFires 2) (step (Tick 600 (Some ''png''))
        (run [ViewMatrix] (constructor example_viewer effects_cfg))))
   \<and> cullSet (step (TimerFires 2) (step (Tick 600 (Some ''png''))
        (run [ViewMatrix] (constructor example_viewer effects_cfg)))) = [0, 1]
   \<and> \<not> objectsDetailCulled (step (TimerFires 2) (step (Tick 600 (Some ''png''))
        (run [ViewMatrix] (constructor example_viewer effects_cfg)))) 0"
proof -
  let ?s = "run [ViewMatrix] (constructor example_viewer effects_cfg)"
  have a: "v_timers example_viewer = Map.empty" "0 < v_nextTimer example_viewer"
    by (simp_all add: example_viewer_def)
  have b: "fastMode ?s" "timer ?s - 600 \<le> 0" "nextTimer ?s + 1 = 2" "truthy (hidePBR ?s)"
    by (simp_all add: sm_eval sm_unfold ex_defs cull_defs fold_setDetail)
  note t = capture_failure_leaves_fast[OF a refl b(1,2), of "''png''", unfolded b(3)]
  have c: "fastMode (step (Tick 600 None) ?s)" "timers (step (Tick 600 None) ?s) = Map.empty"
    "\<not> fastMode (step (Tick 600 (Some ''png'')) ?s)"
    "scene_pbr (step (TimerFires 2) (step (Tick 600 (Some ''png'')) ?s))"
    using t b(4) by blast+
  have e: "cullSet (step (TimerFires 2) (step (Tick 600 (Some ''png'')) ?s)) = [0, 1]"
    by (simp add: sm_eval sm_unfold ex_defs cull_defs fold_setDetail)
  have "\<forall>idx \<in> set (cullSet (step (TimerFires 2) (step (Tick 600 (Some ''png'')) ?s))).
      \<not> objectsDetailCulled (step (TimerFires 2) (step (Tick 600 (Some ''png'')) ?s)) idx"
    using t by blast
  then have f: "\<not> objectsDetailCulled (step (TimerFires 2) (step (Tick 600 (Some ''png'')) ?s)) 0"
    using e by simp
  show ?thesis
    using a b(1,2) c e f by blast
qed

section \<open>Applying, rebuilding and tearing down the cull flags\<close>

text \<open>
  C1 says that \<open>_setObjectsCulled(false)\<close> restores every flag the earlier
  \<open>_setObjectsCulled(true)\<close> set, even if the configuration changed in between. The code
  rebuilds the set from the changed configuration before it restores. In the example scene
  with a triangle threshold of 5, applying culls object 0; after \<open>IfcWall\<close> is put on the
  never-hide list, releasing leaves object 0 detail-culled. The same happens through the
  event handlers: motion, the setter, the expiring tick and the recovery callback end in
  Quality with object 0 still culled.
\<close>

theorem roundtrip_failing_input:
  "\<not> objectsDetailCulled (constructor example_viewer triangles_cfg) 0
   \<and> objectsDetailCulled (setObjectsCulled True (constructor example_viewer triangles_cfg)) 0
   \<and> objectsDetailCulled
        (setObjectsCulled False
           (set_dontHideTypes (Some [''IfcWall''])
              (setObjectsCulled True (constructor example_viewer triangles_cfg)))) 0
   \<and> objectsDetailCulled
        (run [ViewMatrix, SetDontHideTypes (Some [''IfcWall'']), Tick 600 (Some ''png''), TimerFires 2]
           (constructor example_viewer triangles_cfg)) 0
   \<and> \<not> fastMode
        (run [ViewMatrix, SetDontHideTypes (Some [''IfcWall'']), Tick 600 (Some ''png''), TimerFires 2]
           (constructor example_viewer triangles_cfg))"
  by (simp add: triangles_cfg_def sm_eval sm_unfold ex_defs cull_defs fold_setDetail)

text \<open>
  C2 says that \<open>_buildCullObjects\<close> alone writes no cull flag and that the plugin never
  writes \<open>viewCulled\<close>. The first loop of \<open>_buildCullObjects\<close> calls
  \<open>setObjectViewCulled(objectIdx, false)\<close> on the previous cull set. With object 0 view-culled
  from outside and in the plugin's cull set, a rebuild after a setter call clears its
  \<open>viewCulled\<close> flag.
\<close>

theorem rebuild_failing_input:
  "objectsViewCulled
     (set_hideSmallerThan (Some 1) (setObjectsCulled True (constructor view_culled_viewer triangles_cfg))) 0
   \<and> \<not> objectsViewCulled
       (buildCullObjects
          (set_hideSmallerThan (Some 1)
             (setObjectsCulled True (constructor view_culled_viewer triangles_cfg)))) 0"
  by (simp add: triangles_cfg_def view_culled_viewer_def sm_eval sm_unfold ex_defs cull_defs fold_setDetail)

text \<open>
  C6 says that after \<open>destroy\<close> no object is left detail-culled by the plugin. \<open>destroy\<close>
  resets the first \<open>_cullSetLen\<close> entries of \<open>_cullSet\<close>, while \<open>_setObjectsCulled\<close> sets
  the flags of the whole array. In the example scene, after one apply and release with the
  threshold 5 and a second apply with the threshold 10, the rebuilt set is \<open>[0]\<close> but object
  1, still in the array, is culled again; \<open>destroy\<close> leaves it culled.
\<close>

theorem destroy_failing_input:
  "\<not> objectsDetailCulled (constructor example_viewer triangles_cfg) 1
   \<and> builtCullSet
        (setObjectsCulled True
           (set_hideMoreTrianglesThan (Some 10)
              (setObjectsCulled False (setObjectsCulled True (constructor example_viewer triangles_cfg)))))
       = [0]
   \<and> objectsDetailCulled
        (setObjectsCulled True
           (set_hideMoreTrianglesThan (Some 10)
              (setObjectsCulled False (setObjectsCulled True (constructor example_viewer triangles_cfg))))) 1
   \<and> objectsDetailCulled
        (destroy
           (setObjectsCulled True
              (set_hideMoreTrianglesThan (Some 10)
                 (setObjectsCulled False (setObjectsCulled True (constructor example_viewer triangles_cfg)))))) 1"
  by (simp add: triangles_cfg_def sm_eval sm_unfold ex_defs cull_defs fold_setDetail)

end
